theory Spec2Isabelle
  imports Main "HOL-Library.Word" "HOL-Library.Signed_Division"
begin

section \<open>The tiled distributed matrix of slate\_Matrix.hh\<close>

text \<open>
  The class \<^verbatim>\<open>slate::Matrix<FloatType>\<close> is embedded function by function. A Matrix
  object is a record of its members; the two \<^verbatim>\<open>Map\<close> objects it points to
  (\<^verbatim>\<open>tiles_\<close>, \<^verbatim>\<open>lives_\<close>) live in an explicit store, so that a submatrix view, which
  copies the pointers, reads and writes the maps of its parent. The state of one MPI
  process is the record \<open>proc\<close>; every member function takes the object and the process
  state and returns the new state, or an error where the C++ dereferences a null tile,
  fails an assertion or is refused by the transport.

  \<^verbatim>\<open>int64_t\<close> and \<^verbatim>\<open>int\<close> values are \<open>int\<close>s, and \<^verbatim>\<open>int64_t\<close> arithmetic is the
  mathematical one (a signed overflow is undefined in C++). Where the source converts
  an \<^verbatim>\<open>int64_t\<close> rank to \<^verbatim>\<open>int\<close> the conversion is written out, \<open>int_of_int64\<close>: the
  rank that \<^verbatim>\<open>tileRank\<close> returns is an \<^verbatim>\<open>int64_t\<close>, the members of a broadcast set, the
  root of a broadcast and the source of a receive are \<^verbatim>\<open>int\<close>s. \<^verbatim>\<open>/\<close> and \<^verbatim>\<open>%\<close> are C++'s
  truncating division and remainder, \<open>sdiv\<close> and \<open>smod\<close>.
\<close>

subsection \<open>Tiles, errors, transport events\<close>

type_synonym byte = "8 word"

text \<open>
  The ways a call can fail to return a state: a null tile pointer is dereferenced
  (\<open>NotResident\<close>), an assertion on the arguments fails (\<open>InvalidArgument\<close>), the transport
  refuses a call (\<open>TransferFailed\<close>), a buffer or a vector is read or written past its end
  (\<open>OutOfBounds\<close>), a division by zero (\<open>ArithmeticFault\<close>), a receive that is never matched
  (\<open>Deadlock\<close>). \<open>InvariantViolated\<close> is the spec's name for a detected misuse of the life
  counters; no function of the source produces it.
\<close>

datatype error =
    NotResident
  | InvalidArgument
  | InvariantViolated
  | TransferFailed
  | OutOfBounds
  | ArithmeticFault
  | Deadlock

datatype Target = Host | Devices

text \<open>
  Modelled from the spec: \<^verbatim>\<open>slate_ColMajorTile.hh\<close> (classes \<^verbatim>\<open>Tile\<close> and
  \<^verbatim>\<open>ColMajorTile\<close>) is not among the sources. A tile holds its extents \<^verbatim>\<open>mb_\<close>,
  \<^verbatim>\<open>nb_\<close> (read by \<^verbatim>\<open>tileSend\<close> and \<^verbatim>\<open>tileRecv\<close>), its element block \<^verbatim>\<open>data_\<close>
  (``contiguous mb x nb elements'' of the scalar type, here as raw bytes) and its
  residency tag. The block is contiguous, with column stride \<open>mb\<close>: a tile that kept the
  caller's stride \<open>lda > mb\<close> is outside the model.
\<close>

record tile =
  tile_mb :: int
  tile_nb :: int
  tile_data :: "byte list"
  tile_device :: int

datatype event =
    Send int "byte list"
  | Recv int "byte list"
  | Group_incl "int list"
  | Comm_create_group "int list"
  | Comm_rank int
  | Group_translate_ranks int int
  | Bcast int "byte list"
  | Group_free
  | Comm_free

subsection \<open>The Matrix object and the process state\<close>

text \<open>
  \<^verbatim>\<open>tiles_\<close>, \<^verbatim>\<open>lives_\<close> and \<^verbatim>\<open>memory_\<close> are pointers (addresses of the store).
  \<open>sizeof_FloatType\<close> is the template parameter, as the size of one element in bytes.
  The six batch pointer arrays of a device have one common length, kept in
  \<open>batch_array_size\<close>. \<^verbatim>\<open>host_num_\<close> is a static member, the same in every object.
  A member \<^verbatim>\<open>x_\<close> of the class is the field \<open>x\<close> of the record (a name cannot end in an
  underscore here); the members of a tile are \<open>tile_mb\<close>, \<open>tile_nb\<close>, \<open>tile_data\<close>.
\<close>

record matrix =
  it :: int
  jt :: int
  mt :: int
  nt :: int
  tileRankFunc :: "int \<Rightarrow> int \<Rightarrow> int"
  tileDeviceFunc :: "int \<Rightarrow> int \<Rightarrow> int"
  tileMbFunc :: "int \<Rightarrow> int"
  tileNbFunc :: "int \<Rightarrow> int"
  tiles :: nat
  lives :: nat
  mpi_comm :: nat
  mpi_size :: int
  mpi_rank :: int
  host_num :: int
  num_devices :: int
  memory :: nat
  gemm_stream :: "nat list"
  comm_stream :: "nat list"
  cublas_handle :: "nat list"
  batch_array_size :: "int list"
  sizeof_FloatType :: nat

text \<open>
  The store of one process: the \<^verbatim>\<open>Map\<close> objects by address, the pools by address (block
  size in bytes, number of host blocks reserved), the next free address, and the
  process's view of the outside: \<open>raw k\<close> is what the \<open>k\<close>-th block handed out by a pool
  happens to contain (a new tile is not initialised), \<open>inbox src\<close> the point-to-point
  messages from rank \<open>src\<close> not yet received, in the order they were sent, \<open>bcast_in\<close>
  the payloads of the collective broadcasts still to be delivered to this process, and
  \<open>trace\<close> the transport calls made so far. \<open>comm_rank c\<close> and \<open>comm_size c\<close> are what
  \<^verbatim>\<open>MPI_Comm_rank\<close> and \<^verbatim>\<open>MPI_Comm_size\<close> answer for the communicator \<open>c\<close>,
  \<open>omp_initial_device\<close> and \<open>omp_num_devices\<close> what the OpenMP runtime answers (0 devices in
  a build without CUDA). The floating-point values are not interpreted:
  \<open>lapack_larnv iseed n buf\<close> is the buffer after \<^verbatim>\<open>lapack::larnv(1, iseed, n, buf)\<close>, and
  \<open>add_to_diagonal nb v buf\<close> the buffer after \<^verbatim>\<open>buf[k*nb+k] += v\<close> for every \<open>k < nb\<close>.
\<close>

record proc =
  tile_maps :: "nat \<Rightarrow> (int \<times> int \<times> int) \<rightharpoonup> tile"
  life_maps :: "nat \<Rightarrow> (int \<times> int) \<rightharpoonup> int"
  pools :: "nat \<Rightarrow> (int \<times> int)"
  next_obj :: nat
  allocs :: nat
  raw :: "nat \<Rightarrow> nat \<Rightarrow> byte"
  inbox :: "int \<Rightarrow> byte list list"
  bcast_in :: "byte list list"
  trace :: "event list"
  comm_rank :: "nat \<Rightarrow> int"
  comm_size :: "nat \<Rightarrow> int"
  omp_initial_device :: int
  omp_num_devices :: int
  lapack_larnv :: "int list \<Rightarrow> int \<Rightarrow> byte list \<Rightarrow> byte list"
  add_to_diagonal :: "int \<Rightarrow> int \<Rightarrow> byte list \<Rightarrow> byte list"

text \<open>Sequencing of calls that may abort.\<close>

fun foldE :: "('a \<Rightarrow> 's \<Rightarrow> error + 's) \<Rightarrow> 'a list \<Rightarrow> 's \<Rightarrow> error + 's" where
  "foldE f [] s = Inr s"
| "foldE f (x # xs) s = (case f x s of Inl e \<Rightarrow> Inl e | Inr s' \<Rightarrow> foldE f xs s')"

subsection \<open>The registry and the life table\<close>

text \<open>
  Modelled from the spec: \<^verbatim>\<open>slate_Map.hh\<close> is not among the sources. \<^verbatim>\<open>Map\<close> is used as
  an associative store with \<^verbatim>\<open>find\<close>, \<^verbatim>\<open>erase\<close> and an \<^verbatim>\<open>operator[]\<close> that the Matrix
  assigns through to insert (``Operations: find, insert, erase''); so \<^verbatim>\<open>operator[]\<close> at an
  absent key makes a value-initialised entry, as that of \<^verbatim>\<open>std::map\<close> does. For a tile
  that is a null pointer, which every caller that reads one dereferences at once: this
  is the error \<open>NotResident\<close>, and no state is returned. For a life counter it is 0.
\<close>

definition tiles_of :: "matrix \<Rightarrow> proc \<Rightarrow> (int \<times> int \<times> int) \<rightharpoonup> tile" where
  "tiles_of A s = tile_maps s (tiles A)"

definition tiles_insert :: "matrix \<Rightarrow> int \<times> int \<times> int \<Rightarrow> tile \<Rightarrow> proc \<Rightarrow> proc" where
  "tiles_insert A k t s = s\<lparr>tile_maps := (tile_maps s)(tiles A := (tile_maps s (tiles A))(k \<mapsto> t))\<rparr>"

definition tiles_erase :: "matrix \<Rightarrow> int \<times> int \<times> int \<Rightarrow> proc \<Rightarrow> proc" where
  "tiles_erase A k s = s\<lparr>tile_maps := (tile_maps s)(tiles A := (tile_maps s (tiles A))(k := None))\<rparr>"

definition lives_of :: "matrix \<Rightarrow> proc \<Rightarrow> (int \<times> int) \<rightharpoonup> int" where
  "lives_of A s = life_maps s (lives A)"

definition lives_read :: "matrix \<Rightarrow> int \<times> int \<Rightarrow> proc \<Rightarrow> int" where
  "lives_read A k s = (case lives_of A s k of None \<Rightarrow> 0 | Some v \<Rightarrow> v)"

definition lives_insert :: "matrix \<Rightarrow> int \<times> int \<Rightarrow> int \<Rightarrow> proc \<Rightarrow> proc" where
  "lives_insert A k v s = s\<lparr>life_maps := (life_maps s)(lives A := (life_maps s (lives A))(k \<mapsto> v))\<rparr>"

definition lives_erase :: "matrix \<Rightarrow> int \<times> int \<Rightarrow> proc \<Rightarrow> proc" where
  "lives_erase A k s = s\<lparr>life_maps := (life_maps s)(lives A := (life_maps s (lives A))(k := None))\<rparr>"

text \<open>
  Modelled from the spec: the constructor \<^verbatim>\<open>ColMajorTile(mb, nb, memory)\<close> and the copies
  \<^verbatim>\<open>Tile::copyToDevice\<close>, \<^verbatim>\<open>Tile::copyToHost\<close> are not among the sources.
  ``construct(mb, nb, pool) allocates a block from pool at host location'': the block's
  contents are whatever the pool hands out. ``copy\_to(target\_location, stream) copies the
  element block to a new Tile on target\_location; preserves mb, nb; the source is
  unaffected.'' The copy is taken as complete when the call returns; a refusal of the
  allocator or of the device is outside the model.
\<close>

definition ColMajorTile :: "int \<Rightarrow> int \<Rightarrow> matrix \<Rightarrow> proc \<Rightarrow> tile \<times> proc" where
  "ColMajorTile mb nb A s =
     (\<lparr>tile_mb = mb, tile_nb = nb,
       tile_data = map (raw s (allocs s)) [0 ..< nat (mb * nb) * sizeof_FloatType A],
       tile_device = host_num A\<rparr>,
      s\<lparr>allocs := Suc (allocs s)\<rparr>)"

definition copyToDevice :: "tile \<Rightarrow> int \<Rightarrow> nat \<Rightarrow> tile" where
  "copyToDevice t dst_device stream = t\<lparr>tile_device := dst_device\<rparr>"

definition copyToHost :: "tile \<Rightarrow> int \<Rightarrow> nat \<Rightarrow> tile" where
  "copyToHost t host stream = t\<lparr>tile_device := host\<rparr>"

subsection \<open>Distribution queries\<close>

definition tileRank :: "matrix \<Rightarrow> int \<Rightarrow> int \<Rightarrow> int" where
  "tileRank A i j = tileRankFunc A (it A + i) (jt A + j)"

definition tileDevice :: "matrix \<Rightarrow> int \<Rightarrow> int \<Rightarrow> int" where
  "tileDevice A i j = tileDeviceFunc A (it A + i) (jt A + j)"

definition tileMb :: "matrix \<Rightarrow> int \<Rightarrow> int" where
  "tileMb A i = tileMbFunc A (it A + i)"

definition tileNb :: "matrix \<Rightarrow> int \<Rightarrow> int" where
  "tileNb A j = tileNbFunc A (jt A + j)"

definition tileIsLocal :: "matrix \<Rightarrow> int \<Rightarrow> int \<Rightarrow> bool" where
  "tileIsLocal A i j = (tileRank A i j = mpi_rank A)"

text \<open>
  The implicit conversion of an \<^verbatim>\<open>int64_t\<close> to a 32-bit \<^verbatim>\<open>int\<close>, where \<^verbatim>\<open>tileRank(i, j)\<close>
  is inserted into a \<^verbatim>\<open>std::set<int>\<close>, assigned to \<^verbatim>\<open>int root_rank\<close> or passed as
  \<^verbatim>\<open>int src\<close>: the value modulo $2^{32}$ in the range of \<^verbatim>\<open>int\<close>.
\<close>

definition int_of_int64 :: "int \<Rightarrow> int" where
  "int_of_int64 x = (x + 2147483648) mod 4294967296 - 2147483648"

subsection \<open>Tile motion\<close>

text \<open>
  \<^verbatim>\<open>comm_stream_[d]\<close> outside the vector is undefined behaviour in C++; the model stops
  with \<open>OutOfBounds\<close>.
\<close>

definition stream_at :: "nat list \<Rightarrow> int \<Rightarrow> error + nat" where
  "stream_at v d = (if 0 \<le> d \<and> d < int (length v) then Inr (v ! nat d) else Inl OutOfBounds)"

definition tileCopyToDevice :: "matrix \<Rightarrow> int \<Rightarrow> int \<Rightarrow> int \<Rightarrow> proc \<Rightarrow> error + proc" where
  "tileCopyToDevice A i j dst_device s =
     (if tiles_of A s (it A + i, jt A + j, dst_device) = None then
        (case tiles_of A s (it A + i, jt A + j, host_num A) of
           None \<Rightarrow> Inl NotResident
         | Some src_tile \<Rightarrow>
             (case stream_at (comm_stream A) dst_device of
                Inl e \<Rightarrow> Inl e
              | Inr stream \<Rightarrow>
                  Inr (tiles_insert A (it A + i, jt A + j, dst_device)
                         (copyToDevice src_tile dst_device stream) s)))
      else Inr s)"

definition tileMoveToDevice :: "matrix \<Rightarrow> int \<Rightarrow> int \<Rightarrow> int \<Rightarrow> proc \<Rightarrow> error + proc" where
  "tileMoveToDevice A i j dst_device s =
     (if tiles_of A s (it A + i, jt A + j, dst_device) = None then
        (case tiles_of A s (it A + i, jt A + j, host_num A) of
           None \<Rightarrow> Inl NotResident
         | Some src_tile \<Rightarrow>
             (case stream_at (comm_stream A) dst_device of
                Inl e \<Rightarrow> Inl e
              | Inr stream \<Rightarrow>
                  Inr (tiles_erase A (it A + i, jt A + j, host_num A)
                        (tiles_insert A (it A + i, jt A + j, dst_device)
                           (copyToDevice src_tile dst_device stream) s))))
      else Inr s)"

definition tileMoveToHost :: "matrix \<Rightarrow> int \<Rightarrow> int \<Rightarrow> int \<Rightarrow> proc \<Rightarrow> error + proc" where
  "tileMoveToHost A i j src_device s =
     (if tiles_of A s (it A + i, jt A + j, host_num A) = None then
        (case tiles_of A s (it A + i, jt A + j, src_device) of
           None \<Rightarrow> Inl NotResident
         | Some src_tile \<Rightarrow>
             (case stream_at (comm_stream A) src_device of
                Inl e \<Rightarrow> Inl e
              | Inr stream \<Rightarrow>
                  Inr (tiles_erase A (it A + i, jt A + j, src_device)
                        (tiles_insert A (it A + i, jt A + j, host_num A)
                           (copyToHost src_tile (host_num A) stream) s))))
      else Inr s)"

definition tileErase :: "matrix \<Rightarrow> int \<Rightarrow> int \<Rightarrow> int \<Rightarrow> proc \<Rightarrow> proc" where
  "tileErase A i j device s =
     (if tiles_of A s (it A + i, jt A + j, device) \<noteq> None
      then tiles_erase A (it A + i, jt A + j, device) s
      else s)"

text \<open>
  \<^verbatim>\<open>tileTick\<close> has no assertion and calls nothing that can fail: every path returns.
  \<^verbatim>\<open>--(*lives_)[key]\<close> reads the counter (0 where the key is absent), stores the
  decremented value and yields it.
\<close>

definition tileTick :: "matrix \<Rightarrow> int \<Rightarrow> int \<Rightarrow> proc \<Rightarrow> error + proc" where
  "tileTick A i j s =
     (if \<not> tileIsLocal A i j then
        (let life = lives_read A (it A + i, jt A + j) s - 1;
             s1 = lives_insert A (it A + i, jt A + j) life s
         in if life = 0 then
              (let s2 = tileErase A i j (host_num A) s1;
                   s3 = fold (tileErase A i j) [0 .. num_devices A - 1] s2
               in Inr (lives_erase A (it A + i, jt A + j) s3))
            else Inr s1)
      else Inr s)"

text \<open>The body of \<^verbatim>\<open>checkLife\<close> is commented out in the source: it does nothing.\<close>

definition checkLife :: "matrix \<Rightarrow> proc \<Rightarrow> error + proc" where
  "checkLife A s = Inr s"

text \<open>\<open>n\<close> calls of \<^verbatim>\<open>tileTick(i, j)\<close> in a row.\<close>

fun ticks :: "nat \<Rightarrow> matrix \<Rightarrow> int \<Rightarrow> int \<Rightarrow> proc \<Rightarrow> error + proc" where
  "ticks 0 A i j s = Inr s"
| "ticks (Suc n) A i j s =
     (case tileTick A i j s of Inl e \<Rightarrow> Inl e | Inr s' \<Rightarrow> ticks n A i j s')"

subsection \<open>Tile access and submatrix views\<close>

text \<open>
  \<^verbatim>\<open>operator()(i, j, device)\<close> yields a reference into the registry: read, it is the tile
  pointer stored there (\<open>None\<close> for the null pointer of an absent key); assigned to, it
  stores the tile. The two-argument form is the host's.
\<close>

definition tile_at :: "matrix \<Rightarrow> int \<Rightarrow> int \<Rightarrow> int \<Rightarrow> proc \<Rightarrow> tile option" where
  "tile_at A i j device s = tiles_of A s (it A + i, jt A + j, device)"

definition tile_assign :: "matrix \<Rightarrow> int \<Rightarrow> int \<Rightarrow> int \<Rightarrow> tile \<Rightarrow> proc \<Rightarrow> proc" where
  "tile_assign A i j device t s = tiles_insert A (it A + i, jt A + j, device) t s"

text \<open>
  The submatrix constructor \<^verbatim>\<open>Matrix(a, m1, m2, n1, n2)\<close>, also reached through
  \<^verbatim>\<open>operator()(i1, i2, j1, j2)\<close>. Its four assertions abort a checked build.
\<close>

definition Matrix_sub :: "matrix \<Rightarrow> int \<Rightarrow> int \<Rightarrow> int \<Rightarrow> int \<Rightarrow> error + matrix" where
  "Matrix_sub a m1 m2 n1 n2 =
     (if m1 \<le> m2 \<and> n1 \<le> n2 \<and> m2 < mt a \<and> n2 < nt a
      then Inr (a\<lparr>it := it a + m1, jt := jt a + n1, mt := m2 - m1 + 1, nt := n2 - n1 + 1\<rparr>)
      else Inl InvalidArgument)"

subsection \<open>Counting local tiles\<close>

definition getMaxHostTiles :: "matrix \<Rightarrow> int" where
  "getMaxHostTiles A =
     fold (\<lambda>i. fold (\<lambda>j max_batch_size.
                       if tileIsLocal A i j then max_batch_size + 1 else max_batch_size)
                    [0 .. i])
          [0 .. mt A - 1] 0"

definition getMaxDeviceTiles :: "matrix \<Rightarrow> int \<Rightarrow> int" where
  "getMaxDeviceTiles A device =
     fold (\<lambda>i. fold (\<lambda>j max_batch_size.
                       if tileIsLocal A i j \<and> tileDevice A i j = device
                       then max_batch_size + 1 else max_batch_size)
                    [0 .. i])
          [0 .. mt A - 1] 0"

subsection \<open>Construction\<close>

text \<open>The default distribution, the four lambdas of the constructor.\<close>

definition default_tileMbFunc :: "int \<Rightarrow> int \<Rightarrow> int \<Rightarrow> int" where
  "default_tileMbFunc m nb i = (if i * nb > m then m smod nb else nb)"

definition default_tileNbFunc :: "int \<Rightarrow> int \<Rightarrow> int \<Rightarrow> int" where
  "default_tileNbFunc n nb j = (if j * nb > n then n smod nb else nb)"

definition default_tileRankFunc :: "int \<Rightarrow> int \<Rightarrow> int \<Rightarrow> int \<Rightarrow> int" where
  "default_tileRankFunc p q i j = i smod p + (j smod q) * p"

definition default_tileDeviceFunc :: "int \<Rightarrow> int \<Rightarrow> int \<Rightarrow> int \<Rightarrow> int \<Rightarrow> int" where
  "default_tileDeviceFunc q num_devs host i j =
     (if num_devs > 0 then (j sdiv q) smod num_devs else host)"

text \<open>
  Streams and handles are numbered from the next free address. A failing CUDA call
  (an assertion of the three \<^verbatim>\<open>init\<close> functions) is outside the model.
\<close>

definition initCudaStreams :: "matrix \<Rightarrow> proc \<Rightarrow> matrix \<times> proc" where
  "initCudaStreams A s =
     (A\<lparr>gemm_stream := map (\<lambda>d. next_obj s + 2 * d) [0 ..< nat (num_devices A)],
        comm_stream := map (\<lambda>d. next_obj s + 2 * d + 1) [0 ..< nat (num_devices A)]\<rparr>,
      s\<lparr>next_obj := next_obj s + 2 * nat (num_devices A)\<rparr>)"

definition initCublasHandles :: "matrix \<Rightarrow> proc \<Rightarrow> matrix \<times> proc" where
  "initCublasHandles A s =
     (A\<lparr>cublas_handle := map (\<lambda>d. next_obj s + d) [0 ..< nat (num_devices A)]\<rparr>,
      s\<lparr>next_obj := next_obj s + nat (num_devices A)\<rparr>)"

definition initBatchArrays :: "matrix \<Rightarrow> matrix" where
  "initBatchArrays A =
     A\<lparr>batch_array_size := map (getMaxDeviceTiles A) [0 .. num_devices A - 1]\<rparr>"

text \<open>
  Modelled from the spec: the constructor \<^verbatim>\<open>ColMajorTile(mb, nb, a, lda, memory)\<close> is not
  among the sources. ``construct\_from(mb, nb, external\_ptr, lda) wraps caller memory'':
  the tile's elements are those of the column-major block of \<open>a\<close> that starts at the
  given offset. The caller's array is a function from element index to the element's
  bytes.
\<close>

definition ColMajorTile_from ::
  "int \<Rightarrow> int \<Rightarrow> (int \<Rightarrow> byte list) \<Rightarrow> int \<Rightarrow> int \<Rightarrow> matrix \<Rightarrow> tile" where
  "ColMajorTile_from mb nb a offset lda A =
     \<lparr>tile_mb = mb, tile_nb = nb,
      tile_data = concat (map (\<lambda>c. concat (map (\<lambda>r. a (offset + c * lda + r)) [0 .. mb - 1]))
                           [0 .. nb - 1]),
      tile_device = host_num A\<rparr>"

definition random_tile :: "matrix \<Rightarrow> int \<Rightarrow> int \<Rightarrow> proc \<Rightarrow> proc" where
  "random_tile A i j s =
     (if tileIsLocal A i j then
        (case ColMajorTile (tileMb A i) (tileNb A j) A s of (tile, s1) \<Rightarrow>
           let iseed = [take_bit 12 i, take_bit 12 j,
                        take_bit 12 (drop_bit 12 i + drop_bit 12 j), 1];
               nb = tileNb A 0;
               d1 = lapack_larnv s iseed (nb * nb) (tile_data tile);
               d2 = (if i = j then add_to_diagonal s nb (nb * nt A) d1 else d1)
           in tile_assign A i j (host_num A) (tile\<lparr>tile_data := d2\<rparr>) s1)
      else s)"

definition random :: "matrix \<Rightarrow> proc \<Rightarrow> proc" where
  "random A s = fold (\<lambda>i. fold (random_tile A i) [0 .. i]) [0 .. mt A - 1] s"

definition copyTo_tile ::
  "matrix \<Rightarrow> (int \<Rightarrow> byte list) \<Rightarrow> int \<Rightarrow> int \<Rightarrow> int \<Rightarrow> int \<Rightarrow> int \<times> proc \<Rightarrow>
   int \<times> proc" where
  "copyTo_tile A a lda m i j ns =
     (case ns of (n, s) \<Rightarrow>
        (n + tileNb A j,
         if tileIsLocal A i j
         then tile_assign A i j (host_num A)
                (ColMajorTile_from (tileMb A i) (tileNb A j) a (lda * n + m) lda A) s
         else s))"

definition copyTo_row ::
  "matrix \<Rightarrow> (int \<Rightarrow> byte list) \<Rightarrow> int \<Rightarrow> int \<Rightarrow> int \<times> proc \<Rightarrow> int \<times> proc" where
  "copyTo_row A a lda i ms =
     (case ms of (m, s) \<Rightarrow>
        (m + tileMb A i, snd (fold (copyTo_tile A a lda m i) [0 .. i] (0, s))))"

definition copyTo :: "matrix \<Rightarrow> (int \<Rightarrow> byte list) \<Rightarrow> int \<Rightarrow> proc \<Rightarrow> proc" where
  "copyTo A a lda s = snd (fold (copyTo_row A a lda) [0 .. mt A - 1] (0, s))"

text \<open>
  The constructor \<^verbatim>\<open>Matrix(m, n, a, lda, nb, mpi_comm, p, q)\<close> of
  \<^verbatim>\<open>Matrix<FloatType>\<close>, the element size \<open>sz\<close> standing for \<^verbatim>\<open>FloatType\<close>.
  \<open>Matrix_setup\<close> is the constructor up to and including the reservation of the host
  blocks; \<open>Matrix\<close> then fills the registry from the caller's array, or randomly where the
  array is null (\<open>None\<close>). With \<open>nb\<close>, \<open>p\<close> or \<open>q\<close> zero the C++ divides by zero as soon as
  the corresponding expression is evaluated: the model refuses them at once. The three
  queries of the communicator stand inside \<^verbatim>\<open>assert(...)\<close>, so they are made in a checked
  build only; the model is of the checked build, as it is for every other assertion.
\<close>

definition Matrix_setup ::
  "int \<Rightarrow> int \<Rightarrow> int \<Rightarrow> nat \<Rightarrow> int \<Rightarrow> int \<Rightarrow> nat \<Rightarrow> proc \<Rightarrow> matrix \<times> proc" where
  "Matrix_setup m n nb comm p q sz s =
     (let s1 = s\<lparr>tile_maps := (tile_maps s)(next_obj s := Map.empty),
                 life_maps := (life_maps s)(next_obj s + 1 := Map.empty),
                 next_obj := next_obj s + 2\<rparr>;
          A0 = \<lparr>it = 0, jt = 0,
                mt = (if m smod nb = 0 then m sdiv nb else m sdiv nb + 1),
                nt = (if n smod nb = 0 then n sdiv nb else n sdiv nb + 1),
                tileRankFunc = default_tileRankFunc p q,
                tileDeviceFunc =
                  default_tileDeviceFunc q (omp_num_devices s) (omp_initial_device s),
                tileMbFunc = default_tileMbFunc m nb,
                tileNbFunc = default_tileNbFunc n nb,
                tiles = next_obj s, lives = next_obj s + 1,
                mpi_comm = comm, mpi_size = comm_size s comm, mpi_rank = comm_rank s comm,
                host_num = omp_initial_device s, num_devices = omp_num_devices s,
                memory = 0, gemm_stream = [], comm_stream = [], cublas_handle = [],
                batch_array_size = [], sizeof_FloatType = sz\<rparr>
      in case initCudaStreams A0 s1 of (A1, s2) \<Rightarrow>
         case initCublasHandles A1 s2 of (A2, s3) \<Rightarrow>
         let A3 = initBatchArrays A2;
             A4 = A3\<lparr>memory := next_obj s3\<rparr>;
             s4 = s3\<lparr>pools := (pools s3)(next_obj s3 := (int sz * nb * nb, getMaxHostTiles A4)),
                      next_obj := next_obj s3 + 1\<rparr>
         in (A4, s4))"

definition Matrix ::
  "int \<Rightarrow> int \<Rightarrow> (int \<Rightarrow> byte list) option \<Rightarrow> int \<Rightarrow> int \<Rightarrow> nat \<Rightarrow> int \<Rightarrow> int \<Rightarrow> nat \<Rightarrow>
   proc \<Rightarrow> error + (matrix \<times> proc)" where
  "Matrix m n a lda nb comm p q sz s =
     (if nb = 0 \<or> p = 0 \<or> q = 0 then Inl ArithmeticFault
      else
        case Matrix_setup m n nb comm p q sz s of (A, s4) \<Rightarrow>
          Inr (A, case a of Some arr \<Rightarrow> copyTo A arr lda s4 | None \<Rightarrow> random A s4))"

subsection \<open>Transport\<close>

text \<open>
  Modelled from the spec: the transport is an external library (``MPI-compatible
  point-to-point and broadcast''), none of it among the sources. A call moves \<open>count\<close>
  elements of the given MPI datatype, that is \<open>count\<close> times the datatype's extent in
  bytes, starting at the buffer's address. A negative count, a rank outside the
  communicator, a message longer than the receive count and a broadcast whose length
  differs from the receiver's are refused (\<open>TransferFailed\<close>: the assertion on the
  return value fails); a transfer longer than the buffer runs over it (\<open>OutOfBounds\<close>);
  a receive for which no message was ever sent never returns (\<open>Deadlock\<close>).
  Point-to-point messages from one source are received in the order they were sent.
\<close>

definition MPI_DOUBLE :: nat where
  "MPI_DOUBLE = 8"

definition log_call :: "event list \<Rightarrow> proc \<Rightarrow> proc" where
  "log_call es s = s\<lparr>trace := trace s @ es\<rparr>"

definition valid_rank :: "matrix \<Rightarrow> int \<Rightarrow> bool" where
  "valid_rank A r = (0 \<le> r \<and> r < mpi_size A)"

definition MPI_Send :: "matrix \<Rightarrow> byte list \<Rightarrow> int \<Rightarrow> nat \<Rightarrow> int \<Rightarrow> proc \<Rightarrow> error + proc" where
  "MPI_Send A buf count datatype dest s =
     (if count < 0 then Inl TransferFailed
      else if valid_rank A dest then
        (if length buf < nat count * datatype then Inl OutOfBounds
         else Inr (log_call [Send dest (take (nat count * datatype) buf)] s))
      else Inl TransferFailed)"

definition MPI_Recv ::
  "matrix \<Rightarrow> byte list \<Rightarrow> int \<Rightarrow> nat \<Rightarrow> int \<Rightarrow> proc \<Rightarrow> error + (byte list \<times> proc)" where
  "MPI_Recv A buf count datatype src s =
     (if count < 0 then Inl TransferFailed
      else if valid_rank A src then
        (case inbox s src of
           [] \<Rightarrow> Inl Deadlock
         | msg # rest \<Rightarrow>
             if nat count * datatype < length msg then Inl TransferFailed
             else if length buf < length msg then Inl OutOfBounds
             else Inr (msg @ drop (length msg) buf,
                       log_call [Recv src msg] (s\<lparr>inbox := (inbox s)(src := rest)\<rparr>)))
      else Inl TransferFailed)"

definition MPI_Bcast ::
  "byte list \<Rightarrow> int \<Rightarrow> nat \<Rightarrow> int \<Rightarrow> bool \<Rightarrow> proc \<Rightarrow> error + (byte list \<times> proc)" where
  "MPI_Bcast buf count datatype root is_root s =
     (if count < 0 then Inl TransferFailed
      else if is_root then
        (if length buf < nat count * datatype then Inl OutOfBounds
         else Inr (buf, log_call [Bcast root (take (nat count * datatype) buf)] s))
      else
        (case bcast_in s of
           [] \<Rightarrow> Inl Deadlock
         | wire # rest \<Rightarrow>
             if length wire = nat count * datatype then
               (if length buf < length wire then Inl OutOfBounds
                else Inr (wire @ drop (length wire) buf,
                          log_call [Bcast root wire] (s\<lparr>bcast_in := rest\<rparr>)))
             else Inl TransferFailed))"

fun index_of :: "int \<Rightarrow> int list \<Rightarrow> int" where
  "index_of x [] = 0"
| "index_of x (y # ys) = (if x = y then 0 else 1 + index_of x ys)"

subsection \<open>Point-to-point send and receive\<close>

definition tileSend :: "matrix \<Rightarrow> int \<Rightarrow> int \<Rightarrow> int \<Rightarrow> proc \<Rightarrow> error + proc" where
  "tileSend A i j dest s =
     (case tile_at A i j (host_num A) s of
        None \<Rightarrow> Inl NotResident
      | Some tile \<Rightarrow>
          let count = tile_mb tile * tile_nb tile
          in MPI_Send A (tile_data tile) count MPI_DOUBLE dest s)"

definition tileRecv :: "matrix \<Rightarrow> int \<Rightarrow> int \<Rightarrow> int \<Rightarrow> proc \<Rightarrow> error + proc" where
  "tileRecv A i j src s =
     (case ColMajorTile (tileMb A i) (tileNb A j) A s of (tile, s1) \<Rightarrow>
        let s2 = tile_assign A i j (host_num A) tile s1;
            count = tile_mb tile * tile_nb tile
        in (case MPI_Recv A (tile_data tile) count MPI_DOUBLE src s2 of
              Inl e \<Rightarrow> Inl e
            | Inr (buf, s3) \<Rightarrow>
                Inr (tile_assign A i j (host_num A) (tile\<lparr>tile_data := buf\<rparr>) s3)))"

subsection \<open>Broadcast with lifetime\<close>

type_synonym tile_range = "int \<times> int \<times> int \<times> int"

definition tileSendFindRanks :: "matrix \<Rightarrow> int \<Rightarrow> int \<Rightarrow> tile_range \<Rightarrow> int set \<Rightarrow> int set" where
  "tileSendFindRanks A i0 j0 rng bcast_set =
     (case rng of (i1, i2, j1, j2) \<Rightarrow>
        fold (\<lambda>i. fold (\<lambda>j. insert (int_of_int64 (tileRank A i j))) [j1 .. j2]) [i1 .. i2]
          bcast_set)"

definition tileSendFindLife :: "matrix \<Rightarrow> int \<Rightarrow> int \<Rightarrow> tile_range \<Rightarrow> int" where
  "tileSendFindLife A i0 j0 rng =
     (case rng of (i1, i2, j1, j2) \<Rightarrow>
        fold (\<lambda>i. fold (\<lambda>j life. if tileIsLocal A i j then life + 1 else life) [j1 .. j2])
             [i1 .. i2] 0)"

text \<open>
  \<^verbatim>\<open>tileSend(i, j, bcast_set)\<close>. \<^verbatim>\<open>MPI_Group_incl\<close> refuses a rank outside the
  communicator; \<^verbatim>\<open>MPI_Comm_create_group\<close> gives the null communicator to a process that
  is not in the group, and the assertion on it fails; a root that is not in the group
  translates to \<^verbatim>\<open>MPI_UNDEFINED\<close>, which \<^verbatim>\<open>MPI_Bcast\<close> refuses.
\<close>

definition tileSend_set :: "matrix \<Rightarrow> int \<Rightarrow> int \<Rightarrow> int set \<Rightarrow> proc \<Rightarrow> error + proc" where
  "tileSend_set A i j bcast_set s =
     (if card bcast_set = 1 then Inr s
      else
        let bcast_vec = sorted_list_of_set bcast_set in
        if list_all (valid_rank A) bcast_vec \<and> mpi_rank A \<in> bcast_set then
          (let s1 = log_call [Group_incl bcast_vec, Comm_create_group bcast_vec] s;
               bcast_rank = index_of (mpi_rank A) bcast_vec;
               s2 = log_call [Comm_rank bcast_rank] s1;
               root_rank = int_of_int64 (tileRank A i j);
               bcast_root = index_of root_rank bcast_vec;
               s3 = log_call [Group_translate_ranks root_rank bcast_root] s2
           in if root_rank \<in> bcast_set then
                (case tile_at A i j (host_num A) s3 of
                   None \<Rightarrow> Inl NotResident
                 | Some tile \<Rightarrow>
                     let count = tile_mb tile * tile_nb tile
                     in (case MPI_Bcast (tile_data tile) count MPI_DOUBLE bcast_root
                                (mpi_rank A = root_rank) s3 of
                           Inl e \<Rightarrow> Inl e
                         | Inr (buf, s4) \<Rightarrow>
                             Inr (log_call [Group_free, Comm_free]
                                    (tile_assign A i j (host_num A) (tile\<lparr>tile_data := buf\<rparr>) s4))))
              else Inl TransferFailed)
        else Inl TransferFailed)"

text \<open>
  The two range overloads of \<^verbatim>\<open>tileSend\<close>, the template parameter \<^verbatim>\<open>target\<close> as an
  argument.
\<close>

definition tileSend_range ::
  "Target \<Rightarrow> matrix \<Rightarrow> int \<Rightarrow> int \<Rightarrow> tile_range \<Rightarrow> proc \<Rightarrow> error + proc" where
  "tileSend_range target A i j rng s =
     (let bcast_set = tileSendFindRanks A i j rng (insert (int_of_int64 (tileRank A i j)) {}) in
      if mpi_rank A \<in> bcast_set then
        (let s1 =
           (if \<not> tileIsLocal A i j then
              (case ColMajorTile (tileMb A i) (tileNb A j) A s of (tile, s') \<Rightarrow>
                 lives_insert A (it A + i, jt A + j) (tileSendFindLife A i j rng)
                   (tile_assign A i j (host_num A) tile s'))
            else s)
         in case tileSend_set A i j bcast_set s1 of
              Inl e \<Rightarrow> Inl e
            | Inr s2 \<Rightarrow>
                if target = Devices
                then foldE (tileCopyToDevice A i j) [0 .. num_devices A - 1] s2
                else Inr s2)
      else Inr s)"

definition tileSend_range2 ::
  "Target \<Rightarrow> matrix \<Rightarrow> int \<Rightarrow> int \<Rightarrow> tile_range \<Rightarrow> tile_range \<Rightarrow> proc \<Rightarrow> error + proc" where
  "tileSend_range2 target A i j rng1 rng2 s =
     (let bcast_set = tileSendFindRanks A i j rng2
                        (tileSendFindRanks A i j rng1
                           (insert (int_of_int64 (tileRank A i j)) {})) in
      if mpi_rank A \<in> bcast_set then
        (let s1 =
           (if \<not> tileIsLocal A i j then
              (case ColMajorTile (tileMb A i) (tileNb A j) A s of (tile, s') \<Rightarrow>
                 let sa = tile_assign A i j (host_num A) tile s';
                     sb = lives_insert A (it A + i, jt A + j) (tileSendFindLife A i j rng1) sa
                 in lives_insert A (it A + i, jt A + j)
                      (lives_read A (it A + i, jt A + j) sb + tileSendFindLife A i j rng2) sb)
            else s)
         in case tileSend_set A i j bcast_set s1 of
              Inl e \<Rightarrow> Inl e
            | Inr s2 \<Rightarrow>
                if target = Devices
                then foldE (tileCopyToDevice A i j) [0 .. num_devices A - 1] s2
                else Inr s2)
      else Inr s)"

text \<open>
  The body the two overloads have in common, as a function of the broadcast set and of
  the life they computed (used in the proofs: each overload is shown equal to it).
\<close>

definition bcast_body ::
  "Target \<Rightarrow> matrix \<Rightarrow> int \<Rightarrow> int \<Rightarrow> int set \<Rightarrow> int \<Rightarrow> proc \<Rightarrow> error + proc" where
  "bcast_body target A i j bcast_set life s =
     (if mpi_rank A \<in> bcast_set then
        (let s1 =
           (if \<not> tileIsLocal A i j then
              (case ColMajorTile (tileMb A i) (tileNb A j) A s of (tile, s') \<Rightarrow>
                 lives_insert A (it A + i, jt A + j) life
                   (tile_assign A i j (host_num A) tile s'))
            else s)
         in case tileSend_set A i j bcast_set s1 of
              Inl e \<Rightarrow> Inl e
            | Inr s2 \<Rightarrow>
                if target = Devices
                then foldE (tileCopyToDevice A i j) [0 .. num_devices A - 1] s2
                else Inr s2)
      else Inr s)"


subsection \<open>Gather\<close>

definition gather_tile :: "matrix \<Rightarrow> int \<Rightarrow> int \<Rightarrow> proc \<Rightarrow> error + proc" where
  "gather_tile A i j s =
     (if mpi_rank A = 0 then
        (if \<not> tileIsLocal A i j then tileRecv A i j (int_of_int64 (tileRank A i j)) s
         else Inr s)
      else
        (if tileIsLocal A i j then tileSend A i j 0 s else Inr s))"

definition gather :: "matrix \<Rightarrow> proc \<Rightarrow> error + proc" where
  "gather A s =
     foldE (\<lambda>i. foldE (gather_tile A i) [0 .. min i (nt A - 1)]) [0 .. mt A - 1] s"

subsection \<open>Several processes\<close>

text \<open>
  The processes of a communicator run the same program on Matrix objects that differ
  in \<^verbatim>\<open>mpi_rank_\<close> only; \<open>W r\<close> is the state of the process of rank \<open>r\<close>. A collective
  operation is the function that gives every rank its result, the transport handing
  each process what the others sent: the payload a broadcast root put on the wire, and
  for rank 0 in \<^verbatim>\<open>gather\<close> the messages every other rank sent to it, per source in the
  order of sending.
\<close>

definition on_rank :: "matrix \<Rightarrow> int \<Rightarrow> matrix" where
  "on_rank A r = A\<lparr>mpi_rank := r\<rparr>"

fun sent_to :: "int \<Rightarrow> event list \<Rightarrow> byte list list" where
  "sent_to d [] = []"
| "sent_to d (Send d' msg # es) = (if d' = d then msg # sent_to d es else sent_to d es)"
| "sent_to d (e # es) = sent_to d es"

fun broadcasts :: "event list \<Rightarrow> byte list list" where
  "broadcasts [] = []"
| "broadcasts (Bcast root wire # es) = wire # broadcasts es"
| "broadcasts (e # es) = broadcasts es"

definition new_calls :: "proc \<Rightarrow> error + proc \<Rightarrow> event list" where
  "new_calls s r = (case r of Inl e \<Rightarrow> [] | Inr s' \<Rightarrow> drop (length (trace s)) (trace s'))"

definition tile_bcast_world ::
  "Target \<Rightarrow> matrix \<Rightarrow> int \<Rightarrow> int \<Rightarrow> tile_range \<Rightarrow> (int \<Rightarrow> proc) \<Rightarrow> int \<Rightarrow> error + proc" where
  "tile_bcast_world target A i j rng W r =
     (let root = tileRank A i j;
          wire = broadcasts (new_calls (W root)
                   (tileSend_range target (on_rank A root) i j rng (W root)))
      in tileSend_range target (on_rank A r) i j rng
           (if r = root then W r else (W r)\<lparr>bcast_in := bcast_in (W r) @ wire\<rparr>))"

definition tile_bcast_world2 ::
  "Target \<Rightarrow> matrix \<Rightarrow> int \<Rightarrow> int \<Rightarrow> tile_range \<Rightarrow> tile_range \<Rightarrow> (int \<Rightarrow> proc) \<Rightarrow> int \<Rightarrow> error + proc" where
  "tile_bcast_world2 target A i j rng1 rng2 W r =
     (let root = tileRank A i j;
          wire = broadcasts (new_calls (W root)
                   (tileSend_range2 target (on_rank A root) i j rng1 rng2 (W root)))
      in tileSend_range2 target (on_rank A r) i j rng1 rng2
           (if r = root then W r else (W r)\<lparr>bcast_in := bcast_in (W r) @ wire\<rparr>))"

definition gather_world :: "matrix \<Rightarrow> (int \<Rightarrow> proc) \<Rightarrow> int \<Rightarrow> error + proc" where
  "gather_world A W r =
     (if r = 0 then
        gather (on_rank A 0)
          ((W 0)\<lparr>inbox := (\<lambda>src. inbox (W 0) src @
                     (if src = 0 then []
                      else sent_to 0 (new_calls (W src) (gather (on_rank A src) (W src)))))\<rparr>)
      else gather (on_rank A r) (W r))"


subsection \<open>The cells of gather\<close>

text \<open>
  The positions \<^verbatim>\<open>gather\<close> visits, in the order of its two loops, and the element block
  that the owner of a position holds for it on the host (empty where it holds none).
\<close>

definition gather_cells :: "matrix \<Rightarrow> (int \<times> int) list" where
  "gather_cells A = concat (map (\<lambda>i. map (Pair i) [0 .. min i (nt A - 1)]) [0 .. mt A - 1])"

definition owner_data :: "matrix \<Rightarrow> (int \<Rightarrow> proc) \<Rightarrow> int \<times> int \<Rightarrow> byte list" where
  "owner_data A W c =
     (case tile_at A (fst c) (snd c) (host_num A) (W (tileRank A (fst c) (snd c))) of
        None \<Rightarrow> []
      | Some t \<Rightarrow> tile_data t)"


subsection \<open>Observations and call sequences\<close>

text \<open>
  The registry key that the loops of \<^verbatim>\<open>random\<close> and \<^verbatim>\<open>copyTo\<close> fill at \<open>(i, j)\<close>: the
  host's, where the tile is local.
\<close>

definition local_keys :: "matrix \<Rightarrow> int \<Rightarrow> int \<Rightarrow> (int \<times> int \<times> int) set" where
  "local_keys A i j = (if tileIsLocal A i j then {(it A + i, jt A + j, host_num A)} else {})"

text \<open>
  The values an \<^verbatim>\<open>int\<close> holds, and the cells of a range \<open>{i1, i2, j1, j2}\<close>: the positions
  the loops of \<^verbatim>\<open>tileSendFindRanks\<close> and \<^verbatim>\<open>tileSendFindLife\<close> visit.
\<close>

definition fits_int :: "int \<Rightarrow> bool" where
  "fits_int x = (- 2147483648 \<le> x \<and> x < 2147483648)"

definition range_cells :: "tile_range \<Rightarrow> (int \<times> int) set" where
  "range_cells rng = (case rng of (i1, i2, j1, j2) \<Rightarrow> {i1 .. i2} \<times> {j1 .. j2})"

text \<open>The life counter of a tile, read without creating it.\<close>

definition life_at :: "matrix \<Rightarrow> int \<Rightarrow> int \<Rightarrow> proc \<Rightarrow> int option" where
  "life_at A i j s = lives_of A s (it A + i, jt A + j)"

text \<open>\<^verbatim>\<open>tileCopyToDevice(i, j, d)\<close> followed by \<^verbatim>\<open>tileMoveToHost(i, j, d)\<close>.\<close>

definition copy_then_move :: "matrix \<Rightarrow> int \<Rightarrow> int \<Rightarrow> int \<Rightarrow> proc \<Rightarrow> error + proc" where
  "copy_then_move A i j d s =
     (case tileCopyToDevice A i j d s of
        Inl e \<Rightarrow> Inl e
      | Inr s1 \<Rightarrow> tileMoveToHost A i j d s1)"

subsection \<open>A concrete matrix\<close>

text \<open>
  A 2 x 2 matrix of 1 x 1 tiles (\<open>m = n = 2\<close>, \<open>nb = 1\<close>) on a 2 x 1 process grid, so that
  tile row 0 belongs to rank 0 and tile row 1 to rank 1, with two devices (the host
  is number 2) and 8-byte elements. \<open>ex_proc reg lf\<close> is a process whose registry is
  \<open>reg\<close> and whose life table is \<open>lf\<close>; \<open>ex_W\<close> gives every rank the lower-triangle tiles
  it owns.
\<close>

definition ex_tile :: "byte \<Rightarrow> tile" where
  "ex_tile b = \<lparr>tile_mb = 1, tile_nb = 1, tile_data = [b, 1, 2, 3, 4, 5, 6, 7], tile_device = 2\<rparr>"

definition ex_A :: matrix where
  "ex_A = \<lparr>it = 0, jt = 0, mt = 2, nt = 2,
           tileRankFunc = default_tileRankFunc 2 1,
           tileDeviceFunc = default_tileDeviceFunc 1 2 2,
           tileMbFunc = default_tileMbFunc 2 1,
           tileNbFunc = default_tileNbFunc 2 1,
           tiles = 0, lives = 1, mpi_comm = 0, mpi_size = 2, mpi_rank = 0,
           host_num = 2, num_devices = 2, memory = 8,
           gemm_stream = [2, 4], comm_stream = [3, 5], cublas_handle = [6, 7],
           batch_array_size = [1, 0], sizeof_FloatType = 8\<rparr>"

definition ex_proc :: "((int \<times> int \<times> int) \<rightharpoonup> tile) \<Rightarrow> ((int \<times> int) \<rightharpoonup> int) \<Rightarrow> proc" where
  "ex_proc reg lf =
     \<lparr>tile_maps = (\<lambda>a. if a = 0 then reg else Map.empty),
      life_maps = (\<lambda>a. if a = 1 then lf else Map.empty),
      pools = (\<lambda>a. (8, 1)), next_obj = 9, allocs = 0, raw = (\<lambda>k n. 0),
      inbox = (\<lambda>src. []), bcast_in = [], trace = [],
      comm_rank = (\<lambda>c. 0), comm_size = (\<lambda>c. 2),
      omp_initial_device = 2, omp_num_devices = 2,
      lapack_larnv = (\<lambda>iseed n buf. buf), add_to_diagonal = (\<lambda>nb v buf. buf)\<rparr>"

definition ex_W :: "int \<Rightarrow> proc" where
  "ex_W r =
     (if r = 0 then ex_proc [(0, 0, 2) \<mapsto> ex_tile 10] Map.empty
      else ex_proc [(1, 0, 2) \<mapsto> ex_tile 20, (1, 1, 2) \<mapsto> ex_tile 30] Map.empty)"


text \<open>
  The same matrix with 16-byte elements (\<^verbatim>\<open>std::complex<double>\<close>) and with 4-byte
  elements (\<^verbatim>\<open>float\<close>), every tile holding one element.
\<close>

definition ex_tile16 :: "byte \<Rightarrow> tile" where
  "ex_tile16 b = \<lparr>tile_mb = 1, tile_nb = 1,
     tile_data = [b, 1, 2, 3, 4, 5, 6, 7, 8, 9, 10, 11, 12, 13, 14, 15], tile_device = 2\<rparr>"

definition ex_A16 :: matrix where
  "ex_A16 = ex_A\<lparr>sizeof_FloatType := 16\<rparr>"

definition ex_tile4 :: "byte \<Rightarrow> tile" where
  "ex_tile4 b = \<lparr>tile_mb = 1, tile_nb = 1, tile_data = [b, 1, 2, 3], tile_device = 2\<rparr>"

definition ex_A4 :: matrix where
  "ex_A4 = ex_A\<lparr>sizeof_FloatType := 4\<rparr>"

definition ex_W4 :: "int \<Rightarrow> proc" where
  "ex_W4 r =
     (if r = 0 then ex_proc [(0, 0, 2) \<mapsto> ex_tile4 10] Map.empty
      else ex_proc [(1, 0, 2) \<mapsto> ex_tile4 20, (1, 1, 2) \<mapsto> ex_tile4 30] Map.empty)"

definition ex_W16 :: "int \<Rightarrow> proc" where
  "ex_W16 r =
     (if r = 0 then ex_proc [(0, 0, 2) \<mapsto> ex_tile16 10] Map.empty
      else ex_proc [(1, 0, 2) \<mapsto> ex_tile16 20, (1, 1, 2) \<mapsto> ex_tile16 30] Map.empty)"


section \<open>Properties\<close>

subsection \<open>Ranks as \<^verbatim>\<open>int\<close>s\<close>

lemma int_of_int64_fits [simp]: "fits_int x \<Longrightarrow> int_of_int64 x = x"
  by (simp add: fits_int_def int_of_int64_def)

lemma int_of_int64_eq_iff: "int_of_int64 x = x \<longleftrightarrow> fits_int x"
proof
  assume e: "int_of_int64 x = x"
  have "0 \<le> (x + 2147483648) mod 4294967296" "(x + 2147483648) mod 4294967296 < 4294967296"
    by simp_all
  then show "fits_int x" using e unfolding fits_int_def int_of_int64_def by linarith
next
  assume "fits_int x"
  then show "int_of_int64 x = x" by simp
qed

lemma fits_int_small [simp]: "fits_int 0" "fits_int 1"
  by (simp_all add: fits_int_def)

subsection \<open>Registry and life table: frame lemmas\<close>

lemma tiles_of_insert [simp]:
  "tiles_of A (tiles_insert B k t s) =
     (if tiles A = tiles B then (tiles_of A s)(k \<mapsto> t) else tiles_of A s)"
  by (simp add: tiles_of_def tiles_insert_def)

lemma tiles_of_erase [simp]:
  "tiles_of A (tiles_erase B k s) =
     (if tiles A = tiles B then (tiles_of A s)(k := None) else tiles_of A s)"
  by (simp add: tiles_of_def tiles_erase_def)

lemma tiles_of_lives_upd [simp]:
  "tiles_of A (lives_insert B k v s) = tiles_of A s"
  "tiles_of A (lives_erase B k s) = tiles_of A s"
  by (simp_all add: tiles_of_def lives_insert_def lives_erase_def)

lemma lives_of_insert [simp]:
  "lives_of A (lives_insert B k v s) =
     (if lives A = lives B then (lives_of A s)(k \<mapsto> v) else lives_of A s)"
  by (simp add: lives_of_def lives_insert_def)

lemma lives_of_erase [simp]:
  "lives_of A (lives_erase B k s) =
     (if lives A = lives B then (lives_of A s)(k := None) else lives_of A s)"
  by (simp add: lives_of_def lives_erase_def)

lemma lives_of_tiles_upd [simp]:
  "lives_of A (tiles_insert B k t s) = lives_of A s"
  "lives_of A (tiles_erase B k s) = lives_of A s"
  by (simp_all add: lives_of_def tiles_insert_def tiles_erase_def)

lemma tiles_of_tileErase:
  "tiles_of A (tileErase A i j d s) = (tiles_of A s)((it A + i, jt A + j, d) := None)"
  by (auto simp: tileErase_def)

lemma lives_of_tileErase [simp]: "lives_of A (tileErase B i j d s) = lives_of A s"
  by (simp add: tileErase_def)

lemma tiles_of_fold_tileErase:
  "tiles_of A (fold (tileErase A i j) ds s) (I, J, l) =
     (if I = it A + i \<and> J = jt A + j \<and> l \<in> set ds then None else tiles_of A s (I, J, l))"
  by (induction ds arbitrary: s) (auto simp: tiles_of_tileErase)

lemma lives_of_fold_tileErase [simp]:
  "lives_of A (fold (tileErase B i j) ds s) = lives_of A s"
  by (induction ds arbitrary: s) auto

lemma lives_read_insert [simp]: "lives_read A k (lives_insert A k v s) = v"
  by (simp add: lives_read_def)

lemma tileTick_local: "tileIsLocal A i j \<Longrightarrow> tileTick A i j s = Inr s"
  by (simp add: tileTick_def)

lemma tileTick_last:
  assumes "\<not> tileIsLocal A i j" "lives_of A s (it A + i, jt A + j) = Some 1"
  shows "\<exists>s'. tileTick A i j s = Inr s' \<and>
           lives_of A s' = (lives_of A s)((it A + i, jt A + j) := None) \<and>
           (\<forall>I J l. tiles_of A s' (I, J, l) =
              (if I = it A + i \<and> J = jt A + j \<and> (l = host_num A \<or> (0 \<le> l \<and> l < num_devices A))
               then None else tiles_of A s (I, J, l)))"
  using assms
  by (auto simp: tileTick_def Let_def lives_read_def tiles_of_fold_tileErase tiles_of_tileErase)

lemma tileTick_early:
  assumes "\<not> tileIsLocal A i j" "lives_of A s (it A + i, jt A + j) = Some v" "v \<noteq> 1"
  shows "tileTick A i j s = Inr (lives_insert A (it A + i, jt A + j) (v - 1) s)"
  using assms by (simp add: tileTick_def Let_def lives_read_def)

lemma tileTick_absent:
  assumes "\<not> tileIsLocal A i j" "lives_of A s (it A + i, jt A + j) = None"
  shows "tileTick A i j s = Inr (lives_insert A (it A + i, jt A + j) (- 1) s)"
  using assms by (simp add: tileTick_def Let_def lives_read_def)

lemma ticks_add:
  "ticks (k + n) A i j s =
     (case ticks k A i j s of Inl e \<Rightarrow> Inl e | Inr s' \<Rightarrow> ticks n A i j s')"
  by (induction k arbitrary: s) (auto split: sum.splits)

lemma ticks_early:
  assumes "\<not> tileIsLocal A i j"
  shows "lives_of A s (it A + i, jt A + j) = Some (int k + v) \<Longrightarrow> 0 < v \<Longrightarrow>
     \<exists>s'. ticks k A i j s = Inr s' \<and> tiles_of A s' = tiles_of A s \<and>
       lives_of A s' = (lives_of A s)((it A + i, jt A + j) \<mapsto> v)"
proof (induction k arbitrary: s v)
  case 0
  then show ?case by (auto simp: fun_upd_idem)
next
  case (Suc k)
  let ?s1 = "lives_insert A (it A + i, jt A + j) (int k + v) s"
  have t: "tileTick A i j s = Inr ?s1"
    using tileTick_early [OF assms Suc.prems(1)] Suc.prems(2) by simp
  have "lives_of A ?s1 (it A + i, jt A + j) = Some (int k + v)" by simp
  from Suc.IH [OF this Suc.prems(2)] obtain s' where
    "ticks k A i j ?s1 = Inr s'" "tiles_of A s' = tiles_of A ?s1"
    "lives_of A s' = (lives_of A ?s1)((it A + i, jt A + j) \<mapsto> v)" by blast
  then show ?case using t by (auto simp: fun_eq_iff)
qed

lemma ticks_reclaim:
  assumes nl: "\<not> tileIsLocal A i j"
    and life: "lives_of A s (it A + i, jt A + j) = Some (int L)" and pos: "0 < L"
  shows "\<exists>s'. ticks L A i j s = Inr s' \<and>
           lives_of A s' = (lives_of A s)((it A + i, jt A + j) := None) \<and>
           (\<forall>I J l. tiles_of A s' (I, J, l) =
              (if I = it A + i \<and> J = jt A + j \<and> (l = host_num A \<or> (0 \<le> l \<and> l < num_devices A))
               then None else tiles_of A s (I, J, l)))"
proof -
  obtain k where L: "L = Suc k" using pos by (cases L) auto
  have "lives_of A s (it A + i, jt A + j) = Some (int k + 1)" using life L by simp
  from ticks_early [OF nl this] obtain s1 where
    s1: "ticks k A i j s = Inr s1" "tiles_of A s1 = tiles_of A s"
      "lives_of A s1 = (lives_of A s)((it A + i, jt A + j) \<mapsto> 1)" by auto
  have "lives_of A s1 (it A + i, jt A + j) = Some 1" using s1 by simp
  from tileTick_last [OF nl this] obtain s2 where
    s2: "tileTick A i j s1 = Inr s2"
      "lives_of A s2 = (lives_of A s1)((it A + i, jt A + j) := None)"
      "\<forall>I J l. tiles_of A s2 (I, J, l) =
              (if I = it A + i \<and> J = jt A + j \<and> (l = host_num A \<or> (0 \<le> l \<and> l < num_devices A))
               then None else tiles_of A s1 (I, J, l))" by blast
  have comp: "ticks (Suc k) A i j s = Inr s2"
    using s1(1) s2(1) ticks_add [of k 1 A i j s] by simp
  show ?thesis using comp s2 s1 L by (auto simp: fun_eq_iff)
qed

lemma ex_rank1_nonlocal: "\<not> tileIsLocal (on_rank ex_A 1) 0 0"
  by (simp add: tileIsLocal_def tileRank_def on_rank_def ex_A_def default_tileRankFunc_def)


subsection \<open>Lifetime reclamation\<close>

text \<open>
  Claim C3. For a non-local tile whose life counter is \<open>L > 0\<close>, fewer than \<open>L\<close> calls of
  \<^verbatim>\<open>tileTick(i, j)\<close> leave the registry as it is and only count down; exactly \<open>L\<close> calls
  remove the tile's entries from the host and from every device \<open>0 \<le> d < num_devices\<close> and
  erase the life counter itself. On a local tile \<^verbatim>\<open>tileTick\<close> changes nothing, so the
  owner's copy is never affected.
\<close>

theorem tick_reclaims_after_life:
  assumes "\<not> tileIsLocal A i j" and "life_at A i j s = Some (int L)" and "0 < L"
  shows "(\<forall>k<L. \<exists>s'. ticks k A i j s = Inr s' \<and> tiles_of A s' = tiles_of A s \<and>
              life_at A i j s' = Some (int (L - k))) \<and>
         (\<exists>s'. ticks L A i j s = Inr s' \<and>
              tile_at A i j (host_num A) s' = None \<and>
              (\<forall>d. 0 \<le> d \<and> d < num_devices A \<longrightarrow> tile_at A i j d s' = None) \<and>
              life_at A i j s' = None) \<and>
         (\<forall>B i' j' s'. tileIsLocal B i' j' \<longrightarrow> tileTick B i' j' s' = Inr s')"
proof (intro conjI allI impI)
  fix k assume k: "k < L"
  have "lives_of A s (it A + i, jt A + j) = Some (int k + int (L - k))"
    using assms(2) k by (simp add: life_at_def)
  from ticks_early [OF assms(1) this] k
  show "\<exists>s'. ticks k A i j s = Inr s' \<and> tiles_of A s' = tiles_of A s \<and>
              life_at A i j s' = Some (int (L - k))"
    by (auto simp: life_at_def)
next
  from ticks_reclaim [OF assms(1) _ assms(3)] assms(2)
  show "\<exists>s'. ticks L A i j s = Inr s' \<and>
              tile_at A i j (host_num A) s' = None \<and>
              (\<forall>d. 0 \<le> d \<and> d < num_devices A \<longrightarrow> tile_at A i j d s' = None) \<and>
              life_at A i j s' = None"
    by (fastforce simp: life_at_def tile_at_def)
next
  fix B i' j' s' assume "tileIsLocal B i' j'"
  then show "tileTick B i' j' s' = Inr s'" by (rule tileTick_local)
qed


theorem tick_reclaims_after_life_witness:
  "\<not> tileIsLocal (on_rank ex_A 1) 0 0 \<and>
   life_at (on_rank ex_A 1) 0 0
     (ex_proc [(0, 0, 2) \<mapsto> ex_tile 10, (0, 0, 0) \<mapsto> ex_tile 10] [(0, 0) \<mapsto> 2]) = Some (int 2) \<and>
   (\<exists>s'. ticks 2 (on_rank ex_A 1) 0 0
           (ex_proc [(0, 0, 2) \<mapsto> ex_tile 10, (0, 0, 0) \<mapsto> ex_tile 10] [(0, 0) \<mapsto> 2]) = Inr s' \<and>
         tile_at (on_rank ex_A 1) 0 0 2 s' = None \<and>
         tile_at (on_rank ex_A 1) 0 0 0 s' = None \<and>
         life_at (on_rank ex_A 1) 0 0 s' = None)"
proof -
  let ?A = "on_rank ex_A 1"
  let ?s = "ex_proc [(0, 0, 2) \<mapsto> ex_tile 10, (0, 0, 0) \<mapsto> ex_tile 10] [(0, 0) \<mapsto> 2]"
  have h1: "\<not> tileIsLocal ?A 0 0" by (rule ex_rank1_nonlocal)
  have h2: "life_at ?A 0 0 ?s = Some (int 2)"
    by (simp add: life_at_def lives_of_def on_rank_def ex_A_def ex_proc_def)
  have h3: "(0::nat) < 2" by simp
  have nd: "num_devices ?A = 2" "host_num ?A = 2" by (simp_all add: on_rank_def ex_A_def)
  from tick_reclaims_after_life [OF h1 h2 h3] obtain s' where
    "ticks 2 ?A 0 0 ?s = Inr s'" "tile_at ?A 0 0 (host_num ?A) s' = None"
    "\<forall>d. 0 \<le> d \<and> d < num_devices ?A \<longrightarrow> tile_at ?A 0 0 d s' = None"
    "life_at ?A 0 0 s' = None" by blast
  then show ?thesis using h1 h2 nd by auto
qed

text \<open>
  Claim C4. The claim is that one tick more than the tile's life is detected and
  reported as \<open>InvariantViolated\<close>. The code has no such check: with life 1, the second
  \<^verbatim>\<open>tileTick\<close> returns normally and leaves the counter \<open>-1\<close> in the life table.
\<close>

theorem extra_tick_counterexample:
  "map_sum id (life_at (on_rank ex_A 1) 0 0)
     (ticks 2 (on_rank ex_A 1) 0 0 (ex_proc [(0, 0, 2) \<mapsto> ex_tile 10] [(0, 0) \<mapsto> 1]))
   = Inr (Some (- 1))"
  by (simp add: tileTick_def tileIsLocal_def tileRank_def on_rank_def ex_A_def ex_proc_def
      default_tileRankFunc_def lives_read_def lives_of_def lives_insert_def lives_erase_def
      tileErase_def tiles_of_def tiles_erase_def life_at_def Let_def numeral_2_eq_2)

lemma ticks_below_zero:
  assumes "\<not> tileIsLocal A i j"
  shows "lives_of A s (it A + i, jt A + j) = Some v \<Longrightarrow> v \<le> 0 \<Longrightarrow>
     \<exists>s'. ticks k A i j s = Inr s' \<and> tiles_of A s' = tiles_of A s \<and>
       lives_of A s' = (lives_of A s)((it A + i, jt A + j) \<mapsto> v - int k)"
proof (induction k arbitrary: s v)
  case 0
  then show ?case by (auto simp: fun_upd_idem)
next
  case (Suc k)
  let ?s1 = "lives_insert A (it A + i, jt A + j) (v - 1) s"
  have t: "tileTick A i j s = Inr ?s1"
    using tileTick_early [OF assms Suc.prems(1)] Suc.prems(2) by simp
  have "lives_of A ?s1 (it A + i, jt A + j) = Some (v - 1)" by simp
  have "v - 1 \<le> 0" using Suc.prems(2) by simp
  from Suc.IH [OF \<open>lives_of A ?s1 (it A + i, jt A + j) = Some (v - 1)\<close> this] obtain s' where
    "ticks k A i j ?s1 = Inr s'" "tiles_of A s' = tiles_of A ?s1"
    "lives_of A s' = (lives_of A ?s1)((it A + i, jt A + j) \<mapsto> v - 1 - int k)"
    by blast
  then show ?case using t by (auto simp: fun_eq_iff)
qed

text \<open>
  Claim C4, as the code has it. Let \<open>sL\<close> be the state after the \<open>L\<close> ticks that reclaim a
  non-local tile. One more \<^verbatim>\<open>tileTick\<close> is not detected: it returns normally, leaves the
  registry as it is in \<open>sL\<close> and creates the counter anew with the value \<open>-1\<close>, the rest of
  the life table unchanged; \<^verbatim>\<open>checkLife\<close> returns normally too and changes nothing. Every
  later tick does the same: after \<open>L + k\<close> ticks, \<open>k > 0\<close>, the call has returned, the
  registry is that of \<open>sL\<close> and the counter is \<open>-k\<close>.
\<close>

theorem extra_tick_not_detected:
  assumes "\<not> tileIsLocal A i j" and "life_at A i j s = Some (int L)" and "0 < L"
  shows "\<exists>sL s'. ticks L A i j s = Inr sL \<and> tileTick A i j sL = Inr s' \<and>
           ticks (Suc L) A i j s = Inr s' \<and>
           tiles_of A s' = tiles_of A sL \<and>
           lives_of A s' = (lives_of A sL)((it A + i, jt A + j) \<mapsto> - 1) \<and>
           life_at A i j s' = Some (- 1) \<and>
           checkLife A s' = Inr s' \<and>
           (\<exists>s''. tileTick A i j s' = Inr s'' \<and> life_at A i j s'' = Some (- 2) \<and>
                  tiles_of A s'' = tiles_of A s') \<and>
           (\<forall>k. \<exists>sk. ticks (L + Suc k) A i j s = Inr sk \<and> checkLife A sk = Inr sk \<and>
                  tiles_of A sk = tiles_of A sL \<and> life_at A i j sk = Some (- int (Suc k)))"
proof -
  have "lives_of A s (it A + i, jt A + j) = Some (int L)"
    using assms(2) by (simp add: life_at_def)
  from ticks_reclaim [OF assms(1) this assms(3)] obtain s1 where
    s1: "ticks L A i j s = Inr s1" "lives_of A s1 = (lives_of A s)((it A + i, jt A + j) := None)"
    by blast
  let ?s2 = "lives_insert A (it A + i, jt A + j) (- 1) s1"
  have t: "tileTick A i j s1 = Inr ?s2"
    using tileTick_absent [OF assms(1)] s1(2) by simp
  have t2: "ticks (Suc L) A i j s = Inr ?s2"
    using s1(1) t ticks_add [of L 1 A i j s] by simp
  have l2: "lives_of A ?s2 (it A + i, jt A + j) = Some (- 1)" by simp
  have t3: "tileTick A i j ?s2 = Inr (lives_insert A (it A + i, jt A + j) (- 2) ?s2)"
    using tileTick_early [OF assms(1), of ?s2 "- 1"] by simp
  have later: "\<exists>sk. ticks (L + Suc k) A i j s = Inr sk \<and> checkLife A sk = Inr sk \<and>
      tiles_of A sk = tiles_of A s1 \<and> life_at A i j sk = Some (- int (Suc k))" for k
  proof -
    have "(- 1 :: int) \<le> 0" by simp
    from ticks_below_zero [OF assms(1) l2 this, of k] obtain sk where
      sk: "ticks k A i j ?s2 = Inr sk" "tiles_of A sk = tiles_of A ?s2"
      "lives_of A sk = (lives_of A ?s2)((it A + i, jt A + j) \<mapsto> - 1 - int k)"
      by blast
    have "ticks (Suc L + k) A i j s = Inr sk"
      using t2 sk(1) by (simp only: ticks_add [of "Suc L" k A i j s] sum.case)
    then have "ticks (L + Suc k) A i j s = Inr sk" by simp
    then show ?thesis using sk(2,3) by (auto simp: checkLife_def life_at_def)
  qed
  show ?thesis
  proof (rule exI [of _ s1], rule exI [of _ ?s2], intro conjI)
    show "ticks L A i j s = Inr s1" by (rule s1(1))
    show "tileTick A i j s1 = Inr ?s2" by (rule t)
    show "ticks (Suc L) A i j s = Inr ?s2" by (rule t2)
    show "tiles_of A ?s2 = tiles_of A s1" by simp
    show "lives_of A ?s2 = (lives_of A s1)((it A + i, jt A + j) \<mapsto> - 1)" by simp
    show "life_at A i j ?s2 = Some (- 1)" by (simp add: life_at_def)
    show "checkLife A ?s2 = Inr ?s2" by (simp add: checkLife_def)
    show "\<exists>s''. tileTick A i j ?s2 = Inr s'' \<and> life_at A i j s'' = Some (- 2) \<and>
                  tiles_of A s'' = tiles_of A ?s2"
      using t3 by (simp add: life_at_def)
    show "\<forall>k. \<exists>sk. ticks (L + Suc k) A i j s = Inr sk \<and> checkLife A sk = Inr sk \<and>
      tiles_of A sk = tiles_of A s1 \<and> life_at A i j sk = Some (- int (Suc k))"
      using later by blast
  qed
qed

theorem extra_tick_not_detected_witness:
  "\<not> tileIsLocal (on_rank ex_A 1) 0 0 \<and>
   life_at (on_rank ex_A 1) 0 0 (ex_proc [(0, 0, 2) \<mapsto> ex_tile 10] [(0, 0) \<mapsto> 3]) = Some (int 3) \<and>
   (\<exists>sL s'. ticks 3 (on_rank ex_A 1) 0 0 (ex_proc [(0, 0, 2) \<mapsto> ex_tile 10] [(0, 0) \<mapsto> 3]) = Inr sL \<and>
         ticks 4 (on_rank ex_A 1) 0 0 (ex_proc [(0, 0, 2) \<mapsto> ex_tile 10] [(0, 0) \<mapsto> 3]) = Inr s' \<and>
         tiles_of (on_rank ex_A 1) s' = tiles_of (on_rank ex_A 1) sL \<and>
         life_at (on_rank ex_A 1) 0 0 s' = Some (- 1) \<and> checkLife (on_rank ex_A 1) s' = Inr s')"
proof -
  let ?A = "on_rank ex_A 1"
  let ?s = "ex_proc [(0, 0, 2) \<mapsto> ex_tile 10] [(0, 0) \<mapsto> 3]"
  have h1: "\<not> tileIsLocal ?A 0 0" by (rule ex_rank1_nonlocal)
  have h2: "life_at ?A 0 0 ?s = Some (int 3)"
    by (simp add: life_at_def lives_of_def on_rank_def ex_A_def ex_proc_def)
  have h3: "(0::nat) < 3" by simp
  have n: "Suc 3 = 4" by simp
  from extra_tick_not_detected [OF h1 h2 h3] obtain sL s' where
    "ticks 3 ?A 0 0 ?s = Inr sL" "ticks (Suc 3) ?A 0 0 ?s = Inr s'"
    "tiles_of ?A s' = tiles_of ?A sL" "life_at ?A 0 0 s' = Some (- 1)"
    "checkLife ?A s' = Inr s'"
    by (elim exE conjE) (rule that)
  then show ?thesis using h1 h2 n by auto
qed

subsection \<open>Copy to a device, move to the host\<close>

text \<open>
  Claim C1. The claim is that \<^verbatim>\<open>tileCopyToDevice(i, j, d)\<close> followed by
  \<^verbatim>\<open>tileMoveToHost(i, j, d)\<close> leaves the host entry only. In scenario S4 (tile (0, 0) on
  the host, device 1) the device entry (0, 0, 1) is still there afterwards:
  \<^verbatim>\<open>tileMoveToHost\<close> acts only when the tile is not on the host.
\<close>

theorem copy_then_move_counterexample:
  "map_sum id (tile_at ex_A 0 0 1) (copy_then_move ex_A 0 0 1 (ex_W 0))
     = Inr (Some ((ex_tile 10)\<lparr>tile_device := 1\<rparr>))"
  by (simp add: copy_then_move_def tileCopyToDevice_def tileMoveToHost_def tile_at_def
      tiles_of_def tiles_insert_def ex_A_def ex_W_def ex_proc_def stream_at_def copyToDevice_def)

text \<open>
  Claim C1, as the code has it. For a tile resident on the host and a device \<open>d\<close> with a
  communication stream, \<^verbatim>\<open>tileCopyToDevice(i, j, d)\<close> followed by
  \<^verbatim>\<open>tileMoveToHost(i, j, d)\<close> returns the state the copy alone gives: the move does
  nothing, because the host copy exists. The host entry is the original tile; the
  device entry \<open>(i, j, d)\<close> exists, and where the copy created it, it has the host tile's
  extents and element contents; no other registry entry and no life counter changes.
\<close>

theorem copy_then_move_keeps_device_copy:
  assumes "tile_at A i j (host_num A) s = Some h"
    and "0 \<le> d" and "d < int (length (comm_stream A))"
  shows "\<exists>s'. copy_then_move A i j d s = Inr s' \<and>
           tileCopyToDevice A i j d s = Inr s' \<and>
           tile_at A i j (host_num A) s' = Some h \<and>
           (\<exists>t. tile_at A i j d s' = Some t \<and>
                (tile_at A i j d s = None \<longrightarrow>
                   tile_data t = tile_data h \<and> tile_mb t = tile_mb h \<and> tile_nb t = tile_nb h)) \<and>
           (\<forall>k. k \<noteq> (it A + i, jt A + j, d) \<longrightarrow> tiles_of A s' k = tiles_of A s k) \<and>
           lives_of A s' = lives_of A s"
  using assms
  by (auto simp: copy_then_move_def tileCopyToDevice_def tileMoveToHost_def tile_at_def
      stream_at_def copyToDevice_def)

theorem copy_then_move_keeps_device_copy_witness:
  "tile_at ex_A 0 0 (host_num ex_A) (ex_W 0) = Some (ex_tile 10) \<and>
   (\<exists>s'. copy_then_move ex_A 0 0 1 (ex_W 0) = Inr s' \<and>
         tile_at ex_A 0 0 (host_num ex_A) s' = Some (ex_tile 10) \<and>
         (\<exists>t. tile_at ex_A 0 0 1 s' = Some t \<and> tile_data t = tile_data (ex_tile 10)))"
proof -
  have h1: "tile_at ex_A 0 0 (host_num ex_A) (ex_W 0) = Some (ex_tile 10)"
    by (simp add: tile_at_def tiles_of_def ex_A_def ex_W_def ex_proc_def)
  have h2: "(0::int) \<le> 1" by simp
  have h3: "1 < int (length (comm_stream ex_A))" by (simp add: ex_A_def)
  have h4: "tile_at ex_A 0 0 1 (ex_W 0) = None"
    by (simp add: tile_at_def tiles_of_def ex_A_def ex_W_def ex_proc_def)
  from copy_then_move_keeps_device_copy [OF h1 h2 h3] h1 h4 show ?thesis by auto
qed

subsection \<open>The default row heights and column widths\<close>

lemma Matrix_handle:
  assumes "nb \<noteq> 0" "p \<noteq> 0" "q \<noteq> 0"
  shows "\<exists>A s'. Matrix m n a lda nb comm p q sz s = Inr (A, s') \<and>
           it A = 0 \<and> jt A = 0 \<and>
           mt A = (if m smod nb = 0 then m sdiv nb else m sdiv nb + 1) \<and>
           nt A = (if n smod nb = 0 then n sdiv nb else n sdiv nb + 1) \<and>
           tileMbFunc A = default_tileMbFunc m nb \<and>
           tileNbFunc A = default_tileNbFunc n nb \<and>
           tileRankFunc A = default_tileRankFunc p q \<and>
           mpi_rank A = comm_rank s comm \<and> host_num A = omp_initial_device s \<and>
           tiles A = next_obj s"
  using assms
  by (simp add: Matrix_def Matrix_setup_def Let_def initCudaStreams_def initCublasHandles_def
      initBatchArrays_def split_def)

text \<open>
  Claim C6. The claim gives the last tile row the height \<open>M - (MT - 1) * nb\<close>. For
  \<open>m = n = 5\<close>, \<open>nb = 2\<close> the constructor makes \<open>MT = NT = 3\<close>, and \<^verbatim>\<open>tileMb\<close> and
  \<^verbatim>\<open>tileNb\<close> return 2 for every index, also for the last one, where the claim says 1.
\<close>

theorem default_tileMb_last_row_full:
  "map_sum id (\<lambda>(A, s'). (mt A, map (tileMb A) [0, 1, 2], nt A, map (tileNb A) [0, 1, 2]))
     (Matrix 5 5 None 5 2 0 1 1 8 s)
   = Inr (3, [2, 2, 2], 3, [2, 2, 2])"
proof -
  obtain A s' where r: "Matrix 5 5 None 5 2 0 1 1 8 s = Inr (A, s')"
    and f: "it A = 0" "jt A = 0" "mt A = (if (5::int) smod 2 = 0 then 5 sdiv 2 else 5 sdiv 2 + 1)"
       "nt A = (if (5::int) smod 2 = 0 then 5 sdiv 2 else 5 sdiv 2 + 1)"
       "tileMbFunc A = default_tileMbFunc 5 2" "tileNbFunc A = default_tileNbFunc 5 2"
    using Matrix_handle [of 2 1 1 5 5 None 5 0 8 s] by auto
  show ?thesis
    using f by (simp add: r tileMb_def tileNb_def default_tileMbFunc_def default_tileNbFunc_def)
qed

text \<open>
  The test \<^verbatim>\<open>i*nb > m\<close> of the lambda is false for every row index below \<open>MT\<close>, so the
  branch \<^verbatim>\<open>m%nb\<close> is never taken inside the matrix.
\<close>

lemma default_tileMbFunc_in_range:
  assumes "0 < nb" "0 \<le> m" "0 \<le> i"
    and "i < (if m smod nb = 0 then m sdiv nb else m sdiv nb + 1)"
  shows "default_tileMbFunc m nb i = nb"
proof -
  have sd: "m sdiv nb = m div nb" "m smod nb = m mod nb"
    using assms(1,2) by (simp_all add: signed_divide_int_def signed_modulo_int_def sgn_if)
  have "i \<le> m div nb" using assms(4) sd by (auto split: if_splits)
  then have "i * nb \<le> (m div nb) * nb" using assms(1) by (simp add: mult_right_mono)
  also have "\<dots> \<le> m" using assms(1) by (metis div_mult_mod_eq le_add_same_cancel1 pos_mod_sign)
  finally show ?thesis by (simp add: default_tileMbFunc_def)
qed

subsection \<open>Submatrix views\<close>

text \<open>
  Claim C9. For bounds \<open>i1 \<le> i2 < mt\<close> and \<open>j1 \<le> j2 < nt\<close> the submatrix constructor
  returns a view \<open>V\<close> with \<open>it' = it + i1\<close>, \<open>jt' = jt + j1\<close>, \<open>mt' = i2 - i1 + 1\<close>,
  \<open>nt' = j2 - j1 + 1\<close> that has the parent's registry, life table, pool, streams, handles
  and batch arrays. So the view's tile \<open>(i, j)\<close> is the parent's tile \<open>(i1 + i, j1 + j)\<close> in
  every state, and a tile stored through either one is read through the other.
\<close>

theorem submatrix_view_shares_registry:
  assumes "i1 \<le> i2" and "i2 < mt A" and "j1 \<le> j2" and "j2 < nt A"
  shows "\<exists>V. Matrix_sub A i1 i2 j1 j2 = Inr V \<and>
           it V = it A + i1 \<and> jt V = jt A + j1 \<and>
           mt V = i2 - i1 + 1 \<and> nt V = j2 - j1 + 1 \<and>
           tiles V = tiles A \<and> lives V = lives A \<and> memory V = memory A \<and>
           gemm_stream V = gemm_stream A \<and> comm_stream V = comm_stream A \<and>
           cublas_handle V = cublas_handle A \<and> batch_array_size V = batch_array_size A \<and>
           (\<forall>i j d s. tile_at V i j d s = tile_at A (i1 + i) (j1 + j) d s) \<and>
           (\<forall>i j d t s. tile_at A (i1 + i) (j1 + j) d (tile_assign V i j d t s) = Some t) \<and>
           (\<forall>i j d t s. tile_at V i j d (tile_assign A (i1 + i) (j1 + j) d t s) = Some t)"
  using assms
  by (simp add: Matrix_sub_def tile_at_def tile_assign_def tiles_of_def tiles_insert_def
      add.assoc)

theorem submatrix_view_shares_registry_witness:
  "(1::int) \<le> 1 \<and> 1 < mt ex_A \<and> (0::int) \<le> 1 \<and> 1 < nt ex_A \<and>
   (\<exists>V. Matrix_sub ex_A 1 1 0 1 = Inr V \<and> it V = 1 \<and> jt V = 0 \<and> mt V = 1 \<and> nt V = 2 \<and>
        tiles V = tiles ex_A \<and>
        tile_at V 0 1 2 (ex_W 1) = tile_at ex_A 1 1 2 (ex_W 1) \<and>
        tile_at ex_A 1 1 2 (ex_W 1) = Some (ex_tile 30))"
proof -
  have h: "(1::int) \<le> 1" "1 < mt ex_A" "(0::int) \<le> 1" "1 < nt ex_A"
    by (simp_all add: ex_A_def)
  have e: "tile_at ex_A 1 1 2 (ex_W 1) = Some (ex_tile 30)" "it ex_A = 0" "jt ex_A = 0"
    by (simp_all add: tile_at_def tiles_of_def ex_A_def ex_W_def ex_proc_def)
  from submatrix_view_shares_registry [OF h] obtain V where
    "Matrix_sub ex_A 1 1 0 1 = Inr V" "it V = it ex_A + 1" "jt V = jt ex_A + 0"
    "mt V = 1 - 1 + 1" "nt V = 1 - 0 + 1" "tiles V = tiles ex_A"
    "\<forall>i j d s. tile_at V i j d s = tile_at ex_A (1 + i) (0 + j) d s" by blast
  then show ?thesis using h e by auto
qed

subsection \<open>Construction fills the lower triangle\<close>

lemma fold_union:
  assumes "\<And>x s. D (f x s) = D s \<union> K x"
  shows "D (fold f xs s) = D s \<union> (\<Union>x\<in>set xs. K x)"
  by (induction xs arbitrary: s) (auto simp: assms)

lemma dom_random_tile:
  "dom (tiles_of A (random_tile A i j s)) = dom (tiles_of A s) \<union> local_keys A i j"
  by (auto simp: random_tile_def local_keys_def ColMajorTile_def tile_assign_def Let_def
      tiles_of_def tiles_insert_def split: if_splits)

lemma dom_random:
  "dom (tiles_of A (random A s)) =
     dom (tiles_of A s) \<union> (\<Union>i\<in>{0 .. mt A - 1}. \<Union>j\<in>{0 .. i}. local_keys A i j)"
proof -
  have inner: "\<And>i s. dom (tiles_of A (fold (random_tile A i) [0 .. i] s)) =
      dom (tiles_of A s) \<union> (\<Union>j\<in>{0 .. i}. local_keys A i j)"
    using fold_union [where D = "\<lambda>s. dom (tiles_of A s)" and f = "random_tile A _"
        and K = "local_keys A _", OF dom_random_tile] by simp
  show ?thesis
    unfolding random_def
    using fold_union [where D = "\<lambda>s. dom (tiles_of A s)"
        and f = "\<lambda>i. fold (random_tile A i) [0 .. i]"
        and K = "\<lambda>i. \<Union>j\<in>{0 .. i}. local_keys A i j", OF inner] by simp
qed

lemma dom_copyTo_tile:
  "dom (tiles_of A (snd (copyTo_tile A a lda m i j ns))) =
     dom (tiles_of A (snd ns)) \<union> local_keys A i j"
  by (auto simp: copyTo_tile_def local_keys_def tile_assign_def split_def split: if_splits)

lemma dom_copyTo_row:
  "dom (tiles_of A (snd (copyTo_row A a lda i ms))) =
     dom (tiles_of A (snd ms)) \<union> (\<Union>j\<in>{0 .. i}. local_keys A i j)"
  using fold_union [where D = "\<lambda>ns. dom (tiles_of A (snd ns))"
      and f = "copyTo_tile A a lda (fst ms) i" and K = "local_keys A i"
      and xs = "[0 .. i]" and s = "(0, snd ms)", OF dom_copyTo_tile]
  by (simp add: copyTo_row_def split_def)

lemma dom_copyTo:
  "dom (tiles_of A (copyTo A a lda s)) =
     dom (tiles_of A s) \<union> (\<Union>i\<in>{0 .. mt A - 1}. \<Union>j\<in>{0 .. i}. local_keys A i j)"
  unfolding copyTo_def
  using fold_union [where D = "\<lambda>ms. dom (tiles_of A (snd ms))"
      and f = "copyTo_row A a lda" and K = "\<lambda>i. \<Union>j\<in>{0 .. i}. local_keys A i j"
      and xs = "[0 .. mt A - 1]" and s = "(0, s)", OF dom_copyTo_row]
  by simp

lemma fold_count:
  "fold (\<lambda>j c. if P j then c + 1 else c) js (c0::int) = c0 + int (length (filter P js))"
  by (induction js arbitrary: c0) auto

lemma fold_fold_count:
  "fold (\<lambda>i. fold (\<lambda>j c. if P i j then c + 1 else c) (js i)) is (c0::int) =
     c0 + (\<Sum>i\<leftarrow>is. int (length (filter (P i) (js i))))"
  by (induction "is" arbitrary: c0) (auto simp: fold_count)

lemma count_lower_triangle:
  "(\<Sum>i\<leftarrow>[0 .. n - 1]. int (length (filter (P i) [0 .. i]))) =
     int (card {(i, j). 0 \<le> j \<and> j \<le> i \<and> i < n \<and> P i j})"
proof -
  have len: "\<And>i. length (filter (P i) [0 .. i]) = card {j \<in> {0 .. i}. P i j}"
  proof -
    fix i
    have "distinct (filter (P i) [0 .. i])" by simp
    from distinct_card [OF this] show "length (filter (P i) [0 .. i]) = card {j \<in> {0 .. i}. P i j}"
      by simp
  qed
  have set_eq: "{(i, j). 0 \<le> j \<and> j \<le> i \<and> i < n \<and> P i j} =
      (SIGMA i:{0 .. n - 1}. {j \<in> {0 .. i}. P i j})"
    by auto
  have "(\<Sum>i\<leftarrow>[0 .. n - 1]. int (length (filter (P i) [0 .. i]))) =
      (\<Sum>i\<in>{0 .. n - 1}. int (card {j \<in> {0 .. i}. P i j}))"
    by (simp add: sum_list_distinct_conv_sum_set len)
  also have "\<dots> = int (\<Sum>i\<in>{0 .. n - 1}. card {j \<in> {0 .. i}. P i j})" by simp
  also have "\<dots> = int (card (SIGMA i:{0 .. n - 1}. {j \<in> {0 .. i}. P i j}))"
  proof -
    have "finite {j \<in> {0 .. i}. P i j}" for i
      by (rule finite_subset [of _ "{0 .. i}"]) auto
    then have fin: "\<forall>i\<in>{0 .. n - 1}. finite {j \<in> {0 .. i}. P i j}" by blast
    show ?thesis by (simp only: card_SigmaI [OF finite_atLeastAtMost_int fin])
  qed
  finally show ?thesis by (simp only: set_eq)
qed

lemma getMaxHostTiles_card:
  "getMaxHostTiles A = int (card {(i, j). 0 \<le> j \<and> j \<le> i \<and> i < mt A \<and> tileIsLocal A i j})"
  by (simp add: getMaxHostTiles_def fold_fold_count count_lower_triangle)

lemma getMaxDeviceTiles_card:
  "getMaxDeviceTiles A d =
     int (card {(i, j). 0 \<le> j \<and> j \<le> i \<and> i < mt A \<and> tileIsLocal A i j \<and> tileDevice A i j = d})"
  unfolding getMaxDeviceTiles_def fold_fold_count
  using count_lower_triangle [of "\<lambda>i j. tileIsLocal A i j \<and> tileDevice A i j = d" "mt A"]
  by simp

lemma Matrix_setup_fields:
  assumes "Matrix_setup m n nb comm p q sz s = (A, s4)"
  shows "it A = 0" "jt A = 0" "tiles_of A s4 = Map.empty"
  using assms
  by (auto simp: Matrix_setup_def Let_def initCudaStreams_def initCublasHandles_def
      initBatchArrays_def split_def tiles_of_def)

lemma Matrix_registry:
  assumes "nb \<noteq> 0" "p \<noteq> 0" "q \<noteq> 0"
  shows "\<exists>A s'. Matrix m n a lda nb comm p q sz s = Inr (A, s') \<and>
           it A = 0 \<and> jt A = 0 \<and>
           dom (tiles_of A s') = (\<Union>i\<in>{0 .. mt A - 1}. \<Union>j\<in>{0 .. i}. local_keys A i j)"
proof -
  obtain A s4 where su: "Matrix_setup m n nb comm p q sz s = (A, s4)"
    by (cases "Matrix_setup m n nb comm p q sz s") auto
  note f = Matrix_setup_fields [OF su]
  let ?s' = "case a of Some arr \<Rightarrow> copyTo A arr lda s4 | None \<Rightarrow> random A s4"
  have "Matrix m n a lda nb comm p q sz s = Inr (A, ?s')"
    using assms su by (simp add: Matrix_def)
  moreover have "dom (tiles_of A ?s') = (\<Union>i\<in>{0 .. mt A - 1}. \<Union>j\<in>{0 .. i}. local_keys A i j)"
    using f(3) by (cases a) (simp_all add: dom_copyTo dom_random)
  ultimately show ?thesis using f(1,2) by (intro exI [of _ A] exI [of _ ?s']) simp
qed

lemma mem_local_keys:
  "(k \<in> local_keys A i j) = (tileIsLocal A i j \<and> k = (it A + i, jt A + j, host_num A))"
  by (simp add: local_keys_def)

lemma mem_lower_local_keys:
  assumes "it A = 0" "jt A = 0"
  shows "((i, j, l) \<in> (\<Union>i'\<in>{0 .. n - 1}. \<Union>j'\<in>{0 .. i'}. local_keys A i' j')) =
           (0 \<le> j \<and> j \<le> i \<and> i < n \<and> l = host_num A \<and> tileIsLocal A i j)"
  using assms by (auto simp: mem_local_keys)



text \<open>
  Claim C10. The constructor, on both of its paths (\<^verbatim>\<open>copyTo\<close> for a caller's array,
  \<^verbatim>\<open>random\<close> otherwise), leaves a registry whose entries are exactly the host entries of
  the local tiles \<open>(i, j)\<close> with \<open>0 \<le> j \<le> i < mt\<close>: no entry with \<open>j > i\<close>, and none on a
  device. \<^verbatim>\<open>getMaxHostTiles\<close> and \<^verbatim>\<open>getMaxDeviceTiles\<close> count the local positions with
  \<open>j \<le> i\<close> (on the given device) and no others. The submatrix constructor is a function
  of the object alone and creates no entry.
\<close>

theorem construction_fills_lower_triangle_only:
  assumes "nb \<noteq> 0" and "p \<noteq> 0" and "q \<noteq> 0"
  shows "\<exists>A s'. Matrix m n a lda nb comm p q sz s = Inr (A, s') \<and>
           (\<forall>i j l. (tiles_of A s' (i, j, l) \<noteq> None) =
              (0 \<le> j \<and> j \<le> i \<and> i < mt A \<and> l = host_num A \<and> tileIsLocal A i j)) \<and>
           getMaxHostTiles A =
             int (card {(i, j). 0 \<le> j \<and> j \<le> i \<and> i < mt A \<and> tileIsLocal A i j}) \<and>
           (\<forall>d. getMaxDeviceTiles A d =
             int (card {(i, j). 0 \<le> j \<and> j \<le> i \<and> i < mt A \<and> tileIsLocal A i j \<and>
                                 tileDevice A i j = d}))"
proof -
  from Matrix_registry [OF assms, of m n a lda comm sz s] obtain A s' where
    r: "Matrix m n a lda nb comm p q sz s = Inr (A, s')" and z: "it A = 0" "jt A = 0"
    and d: "dom (tiles_of A s') = (\<Union>i\<in>{0 .. mt A - 1}. \<Union>j\<in>{0 .. i}. local_keys A i j)"
    by (elim exE conjE) (rule that)
  have reg: "\<And>i j l. (tiles_of A s' (i, j, l) \<noteq> None) =
              (0 \<le> j \<and> j \<le> i \<and> i < mt A \<and> l = host_num A \<and> tileIsLocal A i j)"
  proof -
    fix i j l
    have "(tiles_of A s' (i, j, l) \<noteq> None) = ((i, j, l) \<in> dom (tiles_of A s'))"
      by (simp add: dom_def)
    also have "\<dots> = (0 \<le> j \<and> j \<le> i \<and> i < mt A \<and> l = host_num A \<and> tileIsLocal A i j)"
      unfolding d by (rule mem_lower_local_keys [OF z])
    finally show "(tiles_of A s' (i, j, l) \<noteq> None) =
              (0 \<le> j \<and> j \<le> i \<and> i < mt A \<and> l = host_num A \<and> tileIsLocal A i j)" .
  qed
  show ?thesis
    apply (rule exI [of _ A], rule exI [of _ s'])
    apply (intro conjI allI)
       apply (rule r)
      apply (rule reg)
     apply (rule getMaxHostTiles_card)
    apply (rule getMaxDeviceTiles_card)
    done
qed

theorem construction_fills_lower_triangle_only_witness:
  "(1::int) \<noteq> 0 \<and> (2::int) \<noteq> 0 \<and>
   (\<exists>A s'. Matrix 2 2 None 2 1 0 2 1 8 (ex_W 0) = Inr (A, s') \<and>
       (tiles_of A s' (1, 0, host_num A) \<noteq> None) = tileIsLocal A 1 0 \<and>
       tiles_of A s' (0, 1, host_num A) = None \<and>
       tiles_of A s' (1, 0, host_num A + 1) = None)"
proof -
  have h: "(1::int) \<noteq> 0" "(2::int) \<noteq> 0" by simp_all
  from construction_fills_lower_triangle_only [OF h(1) h(2) h(1), of 2 2 None 2 0 8 "ex_W 0"]
  obtain A s' where r: "Matrix 2 2 None 2 1 0 2 1 8 (ex_W 0) = Inr (A, s')"
    and reg: "\<forall>i j l. (tiles_of A s' (i, j, l) \<noteq> None) =
              (0 \<le> j \<and> j \<le> i \<and> i < mt A \<and> l = host_num A \<and> tileIsLocal A i j)"
    by (elim exE conjE) (rule that)
  have m: "mt A = 2" using Matrix_handle [OF h(1) h(2) h(1), of 2 2 None 2 0 8 "ex_W 0"] r
    by (auto simp: signed_modulo_int_def signed_divide_int_def)
  have "(tiles_of A s' (1, 0, host_num A) \<noteq> None) = tileIsLocal A 1 0"
    using reg m by simp
  moreover have "tiles_of A s' (0, 1, host_num A) = None"
    using reg [rule_format, of 0 1 "host_num A"] by simp
  moreover have "tiles_of A s' (1, 0, host_num A + 1) = None"
    using reg [rule_format, of 1 0 "host_num A + 1"] by simp
  ultimately show ?thesis using r by simp
qed

subsection \<open>Broadcast: ranks outside the set, and a set of one\<close>

lemma fold_insert_image: "fold (\<lambda>j. insert (f j)) js B = B \<union> f ` set js"
  by (induction js arbitrary: B) auto

lemma fold_fold_insert_image:
  "fold (\<lambda>i. fold (\<lambda>j. insert (f i j)) (js i)) is B = B \<union> (\<Union>i\<in>set is. f i ` set (js i))"
  by (induction "is" arbitrary: B) (auto simp: fold_insert_image)

text \<open>
  The set \<^verbatim>\<open>tileSendFindRanks\<close> leaves in \<^verbatim>\<open>bcast_set\<close>: what it held, and the rank
  of every cell of the range, as an \<^verbatim>\<open>int\<close>.
\<close>

lemma tileSendFindRanks_cells:
  "tileSendFindRanks A i j rng B =
     B \<union> (\<lambda>c. int_of_int64 (tileRank A (fst c) (snd c))) ` range_cells rng"
proof (cases rng)
  case (fields i1 i2 j1 j2)
  have "(\<Union>a\<in>{i1 .. i2}. (\<lambda>b. int_of_int64 (tileRank A a b)) ` {j1 .. j2}) =
      (\<lambda>c. int_of_int64 (tileRank A (fst c) (snd c))) ` ({i1 .. i2} \<times> {j1 .. j2})"
  proof (intro set_eqI iffI)
    fix x assume "x \<in> (\<Union>a\<in>{i1 .. i2}. (\<lambda>b. int_of_int64 (tileRank A a b)) ` {j1 .. j2})"
    then obtain a b where "a \<in> {i1 .. i2}" "b \<in> {j1 .. j2}" "x = int_of_int64 (tileRank A a b)"
      by blast
    then have "(a, b) \<in> {i1 .. i2} \<times> {j1 .. j2}"
      "x = int_of_int64 (tileRank A (fst (a, b)) (snd (a, b)))" by simp_all
    then show "x \<in> (\<lambda>c. int_of_int64 (tileRank A (fst c) (snd c))) ` ({i1 .. i2} \<times> {j1 .. j2})"
      by (rule image_eqI [rotated])
  next
    fix x assume "x \<in> (\<lambda>c. int_of_int64 (tileRank A (fst c) (snd c))) ` ({i1 .. i2} \<times> {j1 .. j2})"
    then obtain c where "c \<in> {i1 .. i2} \<times> {j1 .. j2}"
      "x = int_of_int64 (tileRank A (fst c) (snd c))" by blast
    then have c: "fst c \<in> {i1 .. i2}" "snd c \<in> {j1 .. j2}"
      "x = int_of_int64 (tileRank A (fst c) (snd c))" by auto
    have "x \<in> (\<lambda>b. int_of_int64 (tileRank A (fst c) b)) ` {j1 .. j2}"
      using c(3) c(2) by (rule image_eqI)
    with c(1) show "x \<in> (\<Union>a\<in>{i1 .. i2}. (\<lambda>b. int_of_int64 (tileRank A a b)) ` {j1 .. j2})"
      by (rule UN_I)
  qed
  then show ?thesis
    using fold_fold_insert_image [of "\<lambda>a b. int_of_int64 (tileRank A a b)" "\<lambda>a. [j1 .. j2]"
        "[i1 .. i2]" B]
    by (simp add: fields tileSendFindRanks_def range_cells_def)
qed

lemma tileSendFindRanks_mono: "x \<in> B \<Longrightarrow> x \<in> tileSendFindRanks A i j rng B"
  by (simp add: tileSendFindRanks_cells)

lemma finite_range_cells [simp]: "finite (range_cells rng)"
  by (cases rng) (simp add: range_cells_def)

lemma finite_tileSendFindRanks: "finite B \<Longrightarrow> finite (tileSendFindRanks A i j rng B)"
  by (simp add: tileSendFindRanks_cells)

text \<open>
  Where the rank of \<open>(i, j)\<close> and of every cell of the ranges is an \<^verbatim>\<open>int\<close>, the broadcast
  set of either overload is the set of the owners of \<open>(i, j)\<close> and of the cells.
\<close>

lemma bcast_set_owners:
  assumes "\<forall>c\<in>insert (i, j) (range_cells rng). fits_int (tileRank A (fst c) (snd c))"
  shows "tileSendFindRanks A i j rng {int_of_int64 (tileRank A i j)} =
     (\<lambda>c. tileRank A (fst c) (snd c)) ` insert (i, j) (range_cells rng)"
proof -
  have "(\<lambda>c. int_of_int64 (tileRank A (fst c) (snd c))) ` range_cells rng =
      (\<lambda>c. tileRank A (fst c) (snd c)) ` range_cells rng"
    using assms by (intro image_cong) auto
  moreover have "int_of_int64 (tileRank A i j) = tileRank A i j" using assms by simp
  ultimately show ?thesis by (simp add: tileSendFindRanks_cells)
qed

lemma bcast_set2_owners:
  assumes "\<forall>c\<in>insert (i, j) (range_cells rng1 \<union> range_cells rng2).
             fits_int (tileRank A (fst c) (snd c))"
  shows "tileSendFindRanks A i j rng2 (tileSendFindRanks A i j rng1 {int_of_int64 (tileRank A i j)}) =
     (\<lambda>c. tileRank A (fst c) (snd c)) ` insert (i, j) (range_cells rng1 \<union> range_cells rng2)"
proof -
  have 1: "tileSendFindRanks A i j rng1 {int_of_int64 (tileRank A i j)} =
     (\<lambda>c. tileRank A (fst c) (snd c)) ` insert (i, j) (range_cells rng1)"
    using assms by (intro bcast_set_owners) auto
  have "(\<lambda>c. int_of_int64 (tileRank A (fst c) (snd c))) ` range_cells rng2 =
      (\<lambda>c. tileRank A (fst c) (snd c)) ` range_cells rng2"
    using assms by (intro image_cong) auto
  then show ?thesis by (simp add: tileSendFindRanks_cells [of A i j rng2] 1 image_Un Un_ac)
qed

lemma trace_tiles_upd [simp]:
  "trace (tiles_insert A k t s) = trace s" "trace (tiles_erase A k s) = trace s"
  "trace (lives_insert A k' v s) = trace s" "trace (lives_erase A k' s) = trace s"
  by (simp_all add: tiles_insert_def tiles_erase_def lives_insert_def lives_erase_def)

lemma trace_tileCopyToDevice:
  "tileCopyToDevice A i j d s = Inr s' \<Longrightarrow> trace s' = trace s"
  by (auto simp: tileCopyToDevice_def split: if_splits option.splits sum.splits)

lemma trace_foldE_tileCopyToDevice:
  "foldE (tileCopyToDevice A i j) ds s = Inr s' \<Longrightarrow> trace s' = trace s"
proof (induction ds arbitrary: s)
  case Nil
  then show ?case by simp
next
  case (Cons d ds)
  then show ?case
    by (auto split: sum.splits dest: trace_tileCopyToDevice)
qed

lemma new_calls_same_trace:
  "(\<And>s'. r = Inr s' \<Longrightarrow> trace s' = trace s) \<Longrightarrow> new_calls s r = []"
  by (cases r) (simp_all add: new_calls_def)

lemma bcast_tail_no_calls [simp]:
  "new_calls s (foldE (tileCopyToDevice A i j) ds s) = []" "new_calls s (Inr s) = []"
  by (rule new_calls_same_trace, erule trace_foldE_tileCopyToDevice) (simp add: new_calls_def)

lemma singleton_set_owner:
  assumes "card S = 1" "x \<in> S" "y \<in> S"
  shows "x = y"
  using assms by (auto simp: card_1_singleton_iff)

lemma on_rank_fields [simp]:
  "mpi_rank (on_rank A r) = r" "it (on_rank A r) = it A" "jt (on_rank A r) = jt A"
  "mt (on_rank A r) = mt A" "nt (on_rank A r) = nt A" "tiles (on_rank A r) = tiles A"
  "lives (on_rank A r) = lives A" "host_num (on_rank A r) = host_num A"
  "num_devices (on_rank A r) = num_devices A" "comm_stream (on_rank A r) = comm_stream A"
  "mpi_size (on_rank A r) = mpi_size A" "sizeof_FloatType (on_rank A r) = sizeof_FloatType A"
  "tileRankFunc (on_rank A r) = tileRankFunc A" "tileMbFunc (on_rank A r) = tileMbFunc A"
  "tileNbFunc (on_rank A r) = tileNbFunc A"
  by (simp_all add: on_rank_def)

lemma on_rank_queries [simp]:
  "tileRank (on_rank A r) = tileRank A" "tileMb (on_rank A r) = tileMb A"
  "tileNb (on_rank A r) = tileNb A" "tiles_of (on_rank A r) = tiles_of A"
  "lives_of (on_rank A r) = lives_of A" "tile_at (on_rank A r) = tile_at A"
  "life_at (on_rank A r) = life_at A" "valid_rank (on_rank A r) = valid_rank A"
  "tileIsLocal (on_rank A r) a b = (tileRank A a b = r)"
  "tileSendFindRanks (on_rank A r) = tileSendFindRanks A"
  by (simp_all add: fun_eq_iff tileRank_def tileMb_def tileNb_def tiles_of_def lives_of_def
      tile_at_def life_at_def valid_rank_def tileIsLocal_def tileSendFindRanks_def)

lemma tileSend_range_outside:
  assumes "mpi_rank A \<notin> tileSendFindRanks A i j rng {int_of_int64 (tileRank A i j)}"
  shows "tileSend_range target A i j rng s = Inr s"
  using assms by (simp add: tileSend_range_def)

lemma tileSend_range2_outside:
  assumes "mpi_rank A \<notin> tileSendFindRanks A i j rng2
             (tileSendFindRanks A i j rng1 {int_of_int64 (tileRank A i j)})"
  shows "tileSend_range2 target A i j rng1 rng2 s = Inr s"
  using assms by (simp add: tileSend_range2_def)

lemma tileSend_range_single:
  assumes "card (tileSendFindRanks A i j rng {int_of_int64 (tileRank A i j)}) = 1"
    and fit: "fits_int (tileRank A i j)"
  shows "tileSend_range target A i j rng s =
     (if mpi_rank A = tileRank A i j \<and> target = Devices
      then foldE (tileCopyToDevice A i j) [0 .. num_devices A - 1] s else Inr s)"
proof (cases "mpi_rank A \<in> tileSendFindRanks A i j rng {int_of_int64 (tileRank A i j)}")
  case True
  have "tileRank A i j \<in> tileSendFindRanks A i j rng {int_of_int64 (tileRank A i j)}"
    by (rule tileSendFindRanks_mono) (simp add: fit)
  then have loc: "mpi_rank A = tileRank A i j"
    using singleton_set_owner [OF assms(1) True] by simp
  show ?thesis
    using True assms(1) loc by (simp add: tileSend_range_def tileSend_set_def tileIsLocal_def)
next
  case False
  have "tileRank A i j \<in> tileSendFindRanks A i j rng {int_of_int64 (tileRank A i j)}"
    by (rule tileSendFindRanks_mono) (simp add: fit)
  then have "mpi_rank A \<noteq> tileRank A i j" using False by auto
  then show ?thesis using False by (simp add: tileSend_range_def)
qed

lemma tileSend_range2_single:
  assumes "card (tileSendFindRanks A i j rng2
                   (tileSendFindRanks A i j rng1 {int_of_int64 (tileRank A i j)})) = 1"
    and fit: "fits_int (tileRank A i j)"
  shows "tileSend_range2 target A i j rng1 rng2 s =
     (if mpi_rank A = tileRank A i j \<and> target = Devices
      then foldE (tileCopyToDevice A i j) [0 .. num_devices A - 1] s else Inr s)"
proof (cases "mpi_rank A \<in> tileSendFindRanks A i j rng2
                (tileSendFindRanks A i j rng1 {int_of_int64 (tileRank A i j)})")
  case True
  have "tileRank A i j \<in> tileSendFindRanks A i j rng2
          (tileSendFindRanks A i j rng1 {int_of_int64 (tileRank A i j)})"
    by (intro tileSendFindRanks_mono) (simp add: fit)
  then have loc: "mpi_rank A = tileRank A i j"
    using singleton_set_owner [OF assms(1) True] by simp
  show ?thesis
    using True assms(1) loc by (simp add: tileSend_range2_def tileSend_set_def tileIsLocal_def)
next
  case False
  have "tileRank A i j \<in> tileSendFindRanks A i j rng2
          (tileSendFindRanks A i j rng1 {int_of_int64 (tileRank A i j)})"
    by (intro tileSendFindRanks_mono) (simp add: fit)
  then have "mpi_rank A \<noteq> tileRank A i j" using False by auto
  then show ?thesis using False by (simp add: tileSend_range2_def)
qed

lemma owners_single: "card (f ` insert c0 C) = 1 \<longleftrightarrow> (\<forall>c\<in>C. f c = f c0)"
proof
  assume "card (f ` insert c0 C) = 1"
  then obtain x where x: "f ` insert c0 C = {x}" by (auto simp: card_1_singleton_iff)
  show "\<forall>c\<in>C. f c = f c0"
  proof
    fix c assume "c \<in> C"
    then have "f c \<in> f ` insert c0 C" "f c0 \<in> f ` insert c0 C" by simp_all
    then show "f c = f c0" unfolding x by simp
  qed
next
  assume "\<forall>c\<in>C. f c = f c0"
  then have "f ` insert c0 C = {f c0}" by auto
  then show "card (f ` insert c0 C) = 1"
    by (simp only: card.empty card_insert_if finite.emptyI empty_iff if_False)
qed

text \<open>
  Claim C5. Let the rank of \<open>(i, j)\<close> and of every cell of the ranges be an \<^verbatim>\<open>int\<close>, as the
  ranks of a communicator are. Then the broadcast set that either range overload of
  \<^verbatim>\<open>tileSend\<close> computes is the set of the owners of \<open>(i, j)\<close> and of the cells of its
  range(s), and:

  \<^item> on a process that owns neither \<open>(i, j)\<close> nor a cell of the range(s), the overload
    returns the state it was given: no transport call, no change of the registry or of
    the life table;

  \<^item> the broadcast set has size 1 exactly when \<open>(i, j)\<close> and all the cells have one owner;
    then \<^verbatim>\<open>tileSend(i, j, bcast_set)\<close> returns at once with the state it was given, and on
    every rank \<open>r\<close> the overload makes no transport call, whatever the target and the
    state; with target \<open>Host\<close> it returns the state it was given.
\<close>

theorem tile_bcast_outside_or_alone_no_transport:
  assumes "\<forall>c\<in>insert (i, j) (range_cells rng1 \<union> range_cells rng2).
             fits_int (tileRank A (fst c) (snd c))"
  shows
  "tileSendFindRanks A i j rng1 {int_of_int64 (tileRank A i j)} =
     (\<lambda>c. tileRank A (fst c) (snd c)) ` insert (i, j) (range_cells rng1) \<and>
   tileSendFindRanks A i j rng2 (tileSendFindRanks A i j rng1 {int_of_int64 (tileRank A i j)}) =
     (\<lambda>c. tileRank A (fst c) (snd c)) ` insert (i, j) (range_cells rng1 \<union> range_cells rng2) \<and>
   (\<not> tileIsLocal A i j \<and> (\<forall>c\<in>range_cells rng1. \<not> tileIsLocal A (fst c) (snd c)) \<longrightarrow>
      tileSend_range target A i j rng1 s = Inr s) \<and>
   (\<not> tileIsLocal A i j \<and>
    (\<forall>c\<in>range_cells rng1 \<union> range_cells rng2. \<not> tileIsLocal A (fst c) (snd c)) \<longrightarrow>
      tileSend_range2 target A i j rng1 rng2 s = Inr s) \<and>
   (card (tileSendFindRanks A i j rng1 {int_of_int64 (tileRank A i j)}) = 1 \<longleftrightarrow>
      (\<forall>c\<in>range_cells rng1. tileRank A (fst c) (snd c) = tileRank A i j)) \<and>
   (card (tileSendFindRanks A i j rng1 {int_of_int64 (tileRank A i j)}) = 1 \<longrightarrow>
      tileSend_set A i j (tileSendFindRanks A i j rng1 {int_of_int64 (tileRank A i j)}) s = Inr s \<and>
      (\<forall>r s'. new_calls s' (tileSend_range target (on_rank A r) i j rng1 s') = [] \<and>
              tileSend_range Host (on_rank A r) i j rng1 s' = Inr s')) \<and>
   (card (tileSendFindRanks A i j rng2
            (tileSendFindRanks A i j rng1 {int_of_int64 (tileRank A i j)})) = 1 \<longleftrightarrow>
      (\<forall>c\<in>range_cells rng1 \<union> range_cells rng2. tileRank A (fst c) (snd c) = tileRank A i j)) \<and>
   (card (tileSendFindRanks A i j rng2
            (tileSendFindRanks A i j rng1 {int_of_int64 (tileRank A i j)})) = 1 \<longrightarrow>
      tileSend_set A i j (tileSendFindRanks A i j rng2
              (tileSendFindRanks A i j rng1 {int_of_int64 (tileRank A i j)})) s = Inr s \<and>
      (\<forall>r s'. new_calls s' (tileSend_range2 target (on_rank A r) i j rng1 rng2 s') = [] \<and>
              tileSend_range2 Host (on_rank A r) i j rng1 rng2 s' = Inr s'))"
proof -
  let ?S1 = "tileSendFindRanks A i j rng1 {int_of_int64 (tileRank A i j)}"
  let ?S2 = "tileSendFindRanks A i j rng2 ?S1"
  let ?own = "\<lambda>c. tileRank A (fst c) (snd c)"
  have fit1: "\<forall>c\<in>insert (i, j) (range_cells rng1). fits_int (tileRank A (fst c) (snd c))"
    using assms by auto
  have fit: "fits_int (tileRank A i j)" using assms by auto
  have S1: "?S1 = ?own ` insert (i, j) (range_cells rng1)" by (rule bcast_set_owners [OF fit1])
  have S2: "?S2 = ?own ` insert (i, j) (range_cells rng1 \<union> range_cells rng2)"
    by (rule bcast_set2_owners [OF assms])
  have out1: "tileSend_range target A i j rng1 s = Inr s"
    if "\<not> tileIsLocal A i j" "\<forall>c\<in>range_cells rng1. \<not> tileIsLocal A (fst c) (snd c)"
  proof -
    have "mpi_rank A \<notin> ?S1"
    proof
      assume "mpi_rank A \<in> ?S1"
      then obtain c where "c \<in> insert (i, j) (range_cells rng1)"
        "mpi_rank A = tileRank A (fst c) (snd c)" unfolding S1 by blast
      then show False using that by (auto simp: tileIsLocal_def)
    qed
    then show ?thesis by (rule tileSend_range_outside)
  qed
  have out2: "tileSend_range2 target A i j rng1 rng2 s = Inr s"
    if "\<not> tileIsLocal A i j"
      "\<forall>c\<in>range_cells rng1 \<union> range_cells rng2. \<not> tileIsLocal A (fst c) (snd c)"
  proof -
    have "mpi_rank A \<notin> ?S2"
    proof
      assume "mpi_rank A \<in> ?S2"
      then obtain c where "c \<in> insert (i, j) (range_cells rng1 \<union> range_cells rng2)"
        "mpi_rank A = tileRank A (fst c) (snd c)" unfolding S2 by blast
      then show False using that by (auto simp: tileIsLocal_def)
    qed
    then show ?thesis by (rule tileSend_range2_outside)
  qed
  have iff1: "card ?S1 = 1 \<longleftrightarrow>
      (\<forall>c\<in>range_cells rng1. tileRank A (fst c) (snd c) = tileRank A i j)"
    using owners_single [of ?own "(i, j)" "range_cells rng1"] by (simp only: S1 fst_conv snd_conv)
  have iff2: "card ?S2 = 1 \<longleftrightarrow>
      (\<forall>c\<in>range_cells rng1 \<union> range_cells rng2. tileRank A (fst c) (snd c) = tileRank A i j)"
    using owners_single [of ?own "(i, j)" "range_cells rng1 \<union> range_cells rng2"]
    by (simp only: S2 fst_conv snd_conv)
  have one1: "tileSend_set A i j ?S1 s = Inr s \<and>
      (\<forall>r s'. new_calls s' (tileSend_range target (on_rank A r) i j rng1 s') = [] \<and>
              tileSend_range Host (on_rank A r) i j rng1 s' = Inr s')"
    if c: "card ?S1 = 1"
  proof -
    have c': "card (tileSendFindRanks (on_rank A r) i j rng1
                {int_of_int64 (tileRank (on_rank A r) i j)}) = 1" for r
      using c by simp
    have f': "fits_int (tileRank (on_rank A r) i j)" for r using fit by simp
    show ?thesis
      using c by (simp add: tileSend_set_def tileSend_range_single [OF c' f'])
  qed
  have one2: "tileSend_set A i j ?S2 s = Inr s \<and>
      (\<forall>r s'. new_calls s' (tileSend_range2 target (on_rank A r) i j rng1 rng2 s') = [] \<and>
              tileSend_range2 Host (on_rank A r) i j rng1 rng2 s' = Inr s')"
    if c: "card ?S2 = 1"
  proof -
    have c': "card (tileSendFindRanks (on_rank A r) i j rng2
                (tileSendFindRanks (on_rank A r) i j rng1
                   {int_of_int64 (tileRank (on_rank A r) i j)})) = 1" for r
      using c by simp
    have f': "fits_int (tileRank (on_rank A r) i j)" for r using fit by simp
    show ?thesis
      using c by (simp add: tileSend_set_def tileSend_range2_single [OF c' f'])
  qed
  show ?thesis
  proof (intro conjI)
    show "?S1 = ?own ` insert (i, j) (range_cells rng1)" by (rule S1)
    show "?S2 = ?own ` insert (i, j) (range_cells rng1 \<union> range_cells rng2)" by (rule S2)
    show "\<not> tileIsLocal A i j \<and> (\<forall>c\<in>range_cells rng1. \<not> tileIsLocal A (fst c) (snd c)) \<longrightarrow>
      tileSend_range target A i j rng1 s = Inr s" using out1 by blast
    show "\<not> tileIsLocal A i j \<and>
      (\<forall>c\<in>range_cells rng1 \<union> range_cells rng2. \<not> tileIsLocal A (fst c) (snd c)) \<longrightarrow>
      tileSend_range2 target A i j rng1 rng2 s = Inr s" using out2 by blast
    show "card ?S1 = 1 \<longleftrightarrow>
      (\<forall>c\<in>range_cells rng1. tileRank A (fst c) (snd c) = tileRank A i j)" by (rule iff1)
    show "card ?S1 = 1 \<longrightarrow> tileSend_set A i j ?S1 s = Inr s \<and>
      (\<forall>r s'. new_calls s' (tileSend_range target (on_rank A r) i j rng1 s') = [] \<and>
              tileSend_range Host (on_rank A r) i j rng1 s' = Inr s')" using one1 by blast
    show "card ?S2 = 1 \<longleftrightarrow>
      (\<forall>c\<in>range_cells rng1 \<union> range_cells rng2. tileRank A (fst c) (snd c) = tileRank A i j)"
      by (rule iff2)
    show "card ?S2 = 1 \<longrightarrow> tileSend_set A i j ?S2 s = Inr s \<and>
      (\<forall>r s'. new_calls s' (tileSend_range2 target (on_rank A r) i j rng1 rng2 s') = [] \<and>
              tileSend_range2 Host (on_rank A r) i j rng1 rng2 s' = Inr s')" using one2 by blast
  qed
qed

lemma upto_small [simp]: "[0 .. 0] = [0::int]" "[0 .. 1] = [0, 1::int]" "[1 .. 1] = [1::int]"
  by (simp_all add: upto.simps)

lemma ex_tileRank [simp]:
  "tileRank (on_rank ex_A r) 0 0 = 0" "tileRank (on_rank ex_A r) 0 1 = 0"
  "tileRank (on_rank ex_A r) 1 0 = 1" "tileRank (on_rank ex_A r) 1 1 = 1"
  "tileRank ex_A 0 0 = 0" "tileRank ex_A 0 1 = 0"
  "tileRank ex_A 1 0 = 1" "tileRank ex_A 1 1 = 1"
  by (simp_all add: tileRank_def on_rank_def ex_A_def default_tileRankFunc_def
      signed_modulo_int_def)

lemma ex_row0_ranks [simp]:
  "tileSendFindRanks (on_rank ex_A r) 0 0 (0, 0, 0, 1) {0} = {0}"
  "tileSendFindRanks ex_A 0 0 (0, 0, 0, 1) {0} = {0}"
  by (simp_all add: tileSendFindRanks_def)


lemma ex_range_cells [simp]: "range_cells (0, 0, 0, 1) = {(0, 0), (0, 1)}"
  by (auto simp: range_cells_def)

theorem tile_bcast_outside_or_alone_no_transport_witness:
  "fits_int (tileRank ex_A 0 0) \<and> fits_int (tileRank ex_A 0 1) \<and>
   \<not> tileIsLocal (on_rank ex_A 1) 0 0 \<and> \<not> tileIsLocal (on_rank ex_A 1) 0 1 \<and>
   tileRank ex_A 0 1 = tileRank ex_A 0 0 \<and>
   tileSendFindRanks ex_A 0 0 (0, 0, 0, 1) {int_of_int64 (tileRank ex_A 0 0)} = {0} \<and>
   tileSend_range Devices (on_rank ex_A 1) 0 0 (0, 0, 0, 1) (ex_W 1) = Inr (ex_W 1) \<and>
   tileSend_range2 Devices (on_rank ex_A 1) 0 0 (0, 0, 0, 1) (0, 0, 0, 1) (ex_W 1) = Inr (ex_W 1) \<and>
   card (tileSendFindRanks ex_A 0 0 (0, 0, 0, 1) {int_of_int64 (tileRank ex_A 0 0)}) = 1 \<and>
   new_calls (ex_W 0) (tileSend_range Devices (on_rank ex_A 0) 0 0 (0, 0, 0, 1) (ex_W 0)) = [] \<and>
   tileSend_range Host (on_rank ex_A 0) 0 0 (0, 0, 0, 1) (ex_W 0) = Inr (ex_W 0) \<and>
   new_calls (ex_W 0)
     (tileSend_range2 Devices (on_rank ex_A 0) 0 0 (0, 0, 0, 1) (0, 0, 0, 1) (ex_W 0)) = [] \<and>
   tileSend_range2 Host (on_rank ex_A 0) 0 0 (0, 0, 0, 1) (0, 0, 0, 1) (ex_W 0) = Inr (ex_W 0)"
proof -
  have fit: "fits_int (tileRank ex_A 0 0)" "fits_int (tileRank ex_A 0 1)" by simp_all
  have out: "\<not> tileIsLocal (on_rank ex_A 1) 0 0" "\<not> tileIsLocal (on_rank ex_A 1) 0 1"
    by simp_all
  have same: "tileRank ex_A 0 1 = tileRank ex_A 0 0" by simp
  have h1: "\<forall>c\<in>insert (0, 0) (range_cells (0, 0, 0, 1) \<union> range_cells (0, 0, 0, 1)).
      fits_int (tileRank (on_rank ex_A 1) (fst c) (snd c))"
    using fit by simp
  have h0: "\<forall>c\<in>insert (0, 0) (range_cells (0, 0, 0, 1) \<union> range_cells (0, 0, 0, 1)).
      fits_int (tileRank ex_A (fst c) (snd c))"
    using fit by simp
  have o1: "\<not> tileIsLocal (on_rank ex_A 1) 0 0 \<and>
      (\<forall>c\<in>range_cells (0, 0, 0, 1). \<not> tileIsLocal (on_rank ex_A 1) (fst c) (snd c))"
    "\<not> tileIsLocal (on_rank ex_A 1) 0 0 \<and>
      (\<forall>c\<in>range_cells (0, 0, 0, 1) \<union> range_cells (0, 0, 0, 1).
         \<not> tileIsLocal (on_rank ex_A 1) (fst c) (snd c))"
    using out by simp_all
  have s1: "\<forall>c\<in>range_cells (0, 0, 0, 1). tileRank ex_A (fst c) (snd c) = tileRank ex_A 0 0"
    "\<forall>c\<in>range_cells (0, 0, 0, 1) \<union> range_cells (0, 0, 0, 1).
       tileRank ex_A (fst c) (snd c) = tileRank ex_A 0 0"
    using same by simp_all
  note a = tile_bcast_outside_or_alone_no_transport [OF h1, of Devices "ex_W 1"]
  note b = tile_bcast_outside_or_alone_no_transport [OF h0, of Devices "ex_W 0"]
  have r1: "tileSend_range Devices (on_rank ex_A 1) 0 0 (0, 0, 0, 1) (ex_W 1) = Inr (ex_W 1)"
    "tileSend_range2 Devices (on_rank ex_A 1) 0 0 (0, 0, 0, 1) (0, 0, 0, 1) (ex_W 1) = Inr (ex_W 1)"
    using a o1 by blast+
  have r0: "tileSendFindRanks ex_A 0 0 (0, 0, 0, 1) {int_of_int64 (tileRank ex_A 0 0)} = {0}"
    using b by simp
  have r2: "card (tileSendFindRanks ex_A 0 0 (0, 0, 0, 1) {int_of_int64 (tileRank ex_A 0 0)}) = 1"
    "new_calls (ex_W 0) (tileSend_range Devices (on_rank ex_A 0) 0 0 (0, 0, 0, 1) (ex_W 0)) = []"
    "tileSend_range Host (on_rank ex_A 0) 0 0 (0, 0, 0, 1) (ex_W 0) = Inr (ex_W 0)"
    "new_calls (ex_W 0)
       (tileSend_range2 Devices (on_rank ex_A 0) 0 0 (0, 0, 0, 1) (0, 0, 0, 1) (ex_W 0)) = []"
    "tileSend_range2 Host (on_rank ex_A 0) 0 0 (0, 0, 0, 1) (0, 0, 0, 1) (ex_W 0) = Inr (ex_W 0)"
    using b s1 by blast+
  show ?thesis using fit out same r0 r1 r2 by (intro conjI)
qed

text \<open>
  The members of a broadcast set are \<^verbatim>\<open>int\<close>s. On a process grid of $2^{32} + 1$ rows
  the tiles of row $2^{32}$ have rank $2^{32}$, which enters the set as 0.
\<close>

lemma tileSendFindRanks_rank_as_int:
  "tileRank (ex_A\<lparr>tileRankFunc := default_tileRankFunc 4294967297 1\<rparr>) 4294967296 0 = 4294967296 \<and>
   tileSendFindRanks (ex_A\<lparr>tileRankFunc := default_tileRankFunc 4294967297 1\<rparr>) 1 0
     (4294967296, 4294967296, 0, 0)
     {int_of_int64 (tileRank (ex_A\<lparr>tileRankFunc := default_tileRankFunc 4294967297 1\<rparr>) 1 0)} =
     {0, 1}"
  by (simp add: tileSendFindRanks_def tileRank_def ex_A_def default_tileRankFunc_def
      signed_modulo_int_def signed_divide_int_def int_of_int64_def upto.simps)

subsection \<open>The element type on the wire\<close>

lemmas ex_eval = gather_world_def gather_def gather_tile_def tileSend_def tileRecv_def
  MPI_Send_def MPI_Recv_def MPI_DOUBLE_def ColMajorTile_def tile_at_def tile_assign_def
  tiles_of_def tiles_insert_def on_rank_def ex_A16_def ex_A_def ex_W16_def ex_proc_def ex_tile16_def ex_A4_def ex_W4_def ex_tile4_def
  tileIsLocal_def tileRank_def tileMb_def tileNb_def default_tileRankFunc_def
  default_tileMbFunc_def default_tileNbFunc_def valid_rank_def log_call_def new_calls_def
  signed_modulo_int_def Let_def

lemma map_const_upt [simp]: "map (\<lambda>n. c) [0 ..< k] = replicate k c"
  by (simp add: map_replicate_const)

lemma sorted_list_01: "sorted_list_of_set {0, 1::int} = [0, 1]"
  by simp


text \<open>
  Claim C7. The claim is that send, receive and broadcast move \<open>mb * nb\<close> elements of the
  scalar type, for every scalar type. The three calls pass \<^verbatim>\<open>MPI_DOUBLE\<close> whatever
  \<^verbatim>\<open>FloatType\<close> is. With 16-byte elements (\<^verbatim>\<open>std::complex<double>\<close>) and a 1 x 1 tile of
  16 bytes, \<^verbatim>\<open>tileSend\<close> sends the first 8 bytes; \<^verbatim>\<open>tileRecv\<close> stores them in front of
  what its new block contained, and refuses a message of all 16 bytes; the root of a
  broadcast puts the first 8 bytes on the wire. With 4-byte elements (\<^verbatim>\<open>float\<close>) the send
  reads 8 bytes from a block of 4.
\<close>

theorem transfers_count_doubles_not_elements:
  "map_option tile_data (tile_at ex_A16 1 0 2 (ex_W16 1)) =
     Some [20, 1, 2, 3, 4, 5, 6, 7, 8, 9, 10, 11, 12, 13, 14, 15] \<and>
   new_calls (ex_W16 1) (tileSend (on_rank ex_A16 1) 1 0 0 (ex_W16 1)) =
     [Send 0 [20, 1, 2, 3, 4, 5, 6, 7]] \<and>
   map_sum id (map_option tile_data \<circ> tile_at ex_A16 1 0 2)
       (tileRecv (on_rank ex_A16 0) 1 0 1
          ((ex_W16 0)\<lparr>inbox := (\<lambda>src. [[20, 1, 2, 3, 4, 5, 6, 7]])\<rparr>)) =
     Inr (Some ([20, 1, 2, 3, 4, 5, 6, 7] @ replicate 8 0)) \<and>
   map_sum id (map_option tile_data \<circ> tile_at ex_A16 1 0 2)
       (tileRecv (on_rank ex_A16 0) 1 0 1
          ((ex_W16 0)\<lparr>inbox := (\<lambda>src. [[20, 1, 2, 3, 4, 5, 6, 7, 8, 9, 10, 11, 12, 13, 14, 15]])\<rparr>)) =
     Inl TransferFailed \<and>
   broadcasts (new_calls (ex_W16 0)
       (tileSend_set (on_rank ex_A16 0) 0 0 {0, 1} (ex_W16 0))) = [[10, 1, 2, 3, 4, 5, 6, 7]] \<and>
   tileSend (on_rank ex_A4 1) 1 0 0 (ex_W4 1) = Inl OutOfBounds"
  by (simp add: ex_eval tileSend_set_def MPI_Bcast_def sorted_list_01)

subsection \<open>Broadcast with lifetime\<close>

lemma tileSend_range_body:
  "tileSend_range target A i j rng s =
     bcast_body target A i j (tileSendFindRanks A i j rng {int_of_int64 (tileRank A i j)})
       (tileSendFindLife A i j rng) s"
  by (simp add: tileSend_range_def bcast_body_def)

lemma lives_insert_twice:
  "lives_insert A k v (lives_insert A k u s) = lives_insert A k v s"
  by (simp add: lives_insert_def)

lemma lives_read_tile_assign [simp]:
  "lives_read A k (tile_assign B i j d t s) = lives_read A k s"
  by (simp add: lives_read_def tile_assign_def)

lemma tileSend_range2_body:
  "tileSend_range2 target A i j rng1 rng2 s =
     bcast_body target A i j
       (tileSendFindRanks A i j rng2 (tileSendFindRanks A i j rng1 {int_of_int64 (tileRank A i j)}))
       (tileSendFindLife A i j rng1 + tileSendFindLife A i j rng2) s"
  by (simp add: tileSend_range2_def bcast_body_def Let_def split_def lives_insert_twice)

lemma log_call_frame [simp]:
  "tiles_of A (log_call es s) = tiles_of A s" "lives_of A (log_call es s) = lives_of A s"
  "trace (log_call es s) = trace s @ es" "bcast_in (log_call es s) = bcast_in s"
  "inbox (log_call es s) = inbox s" "allocs (log_call es s) = allocs s"
  "raw (log_call es s) = raw s"
  by (simp_all add: log_call_def tiles_of_def lives_of_def)

lemma env_frame [simp]:
  "tiles_of A (s\<lparr>bcast_in := b\<rparr>) = tiles_of A s" "lives_of A (s\<lparr>bcast_in := b\<rparr>) = lives_of A s"
  "tiles_of A (s\<lparr>inbox := x\<rparr>) = tiles_of A s" "lives_of A (s\<lparr>inbox := x\<rparr>) = lives_of A s"
  "tiles_of A (s\<lparr>allocs := n\<rparr>) = tiles_of A s" "lives_of A (s\<lparr>allocs := n\<rparr>) = lives_of A s"
  by (simp_all add: tiles_of_def lives_of_def)

lemma upd_frame [simp]:
  "bcast_in (tiles_insert A k t s) = bcast_in s" "bcast_in (lives_insert A k' v s) = bcast_in s"
  "inbox (tiles_insert A k t s) = inbox s" "inbox (lives_insert A k' v s) = inbox s"
  "allocs (tiles_insert A k t s) = allocs s" "raw (tiles_insert A k t s) = raw s"
  by (simp_all add: tiles_insert_def lives_insert_def)

lemma list_all_sorted_list_of_set:
  "finite S \<Longrightarrow> \<forall>x\<in>S. P x \<Longrightarrow> list_all P (sorted_list_of_set S)"
  by (simp add: list_all_iff)

lemma tileSend_set_root:
  assumes "finite S" "card S \<noteq> 1" "\<forall>x\<in>S. valid_rank B x" "mpi_rank B \<in> S"
    and "tileRank B i j = mpi_rank B"
    and "tiles_of B s (it B + i, jt B + j, host_num B) = Some t"
    and "0 \<le> tile_mb t * tile_nb t"
    and "length (tile_data t) = nat (tile_mb t * tile_nb t) * MPI_DOUBLE"
    and "fits_int (tileRank B i j)"
  shows "\<exists>s'. tileSend_set B i j S s = Inr s' \<and> tiles_of B s' = tiles_of B s \<and>
           lives_of B s' = lives_of B s \<and>
           broadcasts (drop (length (trace s)) (trace s')) = [tile_data t]"
  using assms
  by (simp add: tileSend_set_def Let_def list_all_sorted_list_of_set tile_at_def
      tile_assign_def MPI_Bcast_def fun_upd_idem)

lemma tileSend_set_member:
  assumes "finite S" "card S \<noteq> 1" "\<forall>x\<in>S. valid_rank B x" "mpi_rank B \<in> S"
    and "tileRank B i j \<in> S" "tileRank B i j \<noteq> mpi_rank B"
    and "tiles_of B s (it B + i, jt B + j, host_num B) = Some t"
    and "0 \<le> tile_mb t * tile_nb t"
    and "bcast_in s = [w]"
    and "length w = nat (tile_mb t * tile_nb t) * MPI_DOUBLE"
    and "length w \<le> length (tile_data t)"
    and "fits_int (tileRank B i j)"
  shows "\<exists>s'. tileSend_set B i j S s = Inr s' \<and>
           tiles_of B s' = (tiles_of B s)((it B + i, jt B + j, host_num B) \<mapsto>
                              t\<lparr>tile_data := w @ drop (length w) (tile_data t)\<rparr>) \<and>
           lives_of B s' = lives_of B s"
  using assms
  by (simp add: tileSend_set_def Let_def list_all_sorted_list_of_set tile_at_def
      tile_assign_def MPI_Bcast_def)

lemma tileCopyToDevice_ok:
  assumes "tiles_of B s (it B + i, jt B + j, host_num B) = Some h"
    and "0 \<le> d" "d < int (length (comm_stream B))"
  shows "\<exists>s'. tileCopyToDevice B i j d s = Inr s' \<and>
           tiles_of B s' (it B + i, jt B + j, host_num B) = Some h \<and>
           lives_of B s' = lives_of B s \<and> trace s' = trace s"
  using assms
  by (auto simp: tileCopyToDevice_def stream_at_def)

lemma foldE_copy_ok:
  assumes "tiles_of B s (it B + i, jt B + j, host_num B) = Some h"
    and "\<forall>d\<in>set ds. 0 \<le> d \<and> d < int (length (comm_stream B))"
  shows "\<exists>s'. foldE (tileCopyToDevice B i j) ds s = Inr s' \<and>
           tiles_of B s' (it B + i, jt B + j, host_num B) = Some h \<and>
           lives_of B s' = lives_of B s \<and> trace s' = trace s"
  using assms
proof (induction ds arbitrary: s)
  case Nil
  then show ?case by simp
next
  case (Cons d ds)
  from Cons.prems have d: "0 \<le> d" "d < int (length (comm_stream B))" by simp_all
  from tileCopyToDevice_ok [OF Cons.prems(1) d] obtain s1 where
    s1: "tileCopyToDevice B i j d s = Inr s1"
      "tiles_of B s1 (it B + i, jt B + j, host_num B) = Some h"
      "lives_of B s1 = lives_of B s" "trace s1 = trace s" by blast
  from Cons.IH [OF s1(2)] Cons.prems(2) obtain s' where
    "foldE (tileCopyToDevice B i j) ds s1 = Inr s'"
    "tiles_of B s' (it B + i, jt B + j, host_num B) = Some h"
    "lives_of B s' = lives_of B s1" "trace s' = trace s1" by auto
  then show ?case using s1 by simp
qed

lemma bcast_tail_ok:
  assumes "tiles_of B s (it B + i, jt B + j, host_num B) = Some h"
    and "target = Devices \<longrightarrow> num_devices B \<le> int (length (comm_stream B))"
  shows "\<exists>s'. (if target = Devices
                then foldE (tileCopyToDevice B i j) [0 .. num_devices B - 1] s else Inr s) = Inr s' \<and>
           tiles_of B s' (it B + i, jt B + j, host_num B) = Some h \<and>
           lives_of B s' = lives_of B s \<and> trace s' = trace s"
proof (cases "target = Devices")
  case True
  then have "\<forall>d\<in>set [0 .. num_devices B - 1]. 0 \<le> d \<and> d < int (length (comm_stream B))"
    using assms(2) by auto
  from foldE_copy_ok [OF assms(1) this] True show ?thesis by simp
next
  case False
  then show ?thesis using assms(1) by simp
qed

lemma bcast_body_root:
  assumes "finite S" "card S \<noteq> 1" "\<forall>x\<in>S. valid_rank B x" "mpi_rank B \<in> S"
    and "tileRank B i j = mpi_rank B"
    and "tiles_of B s (it B + i, jt B + j, host_num B) = Some t"
    and "0 \<le> tile_mb t * tile_nb t"
    and "length (tile_data t) = nat (tile_mb t * tile_nb t) * MPI_DOUBLE"
    and "target = Devices \<longrightarrow> num_devices B \<le> int (length (comm_stream B))"
    and fit: "fits_int (tileRank B i j)"
  shows "\<exists>s'. bcast_body target B i j S life s = Inr s' \<and>
           tiles_of B s' (it B + i, jt B + j, host_num B) = Some t \<and>
           lives_of B s' = lives_of B s \<and>
           broadcasts (drop (length (trace s)) (trace s')) = [tile_data t]"
proof -
  from tileSend_set_root [OF assms(1-8) fit] obtain s2 where
    s2: "tileSend_set B i j S s = Inr s2" "tiles_of B s2 = tiles_of B s"
      "lives_of B s2 = lives_of B s"
      "broadcasts (drop (length (trace s)) (trace s2)) = [tile_data t]" by blast
  have "tiles_of B s2 (it B + i, jt B + j, host_num B) = Some t" using s2(2) assms(6) by simp
  from bcast_tail_ok [OF this assms(9)] obtain s' where
    s': "(if target = Devices
          then foldE (tileCopyToDevice B i j) [0 .. num_devices B - 1] s2 else Inr s2) = Inr s'"
      "tiles_of B s' (it B + i, jt B + j, host_num B) = Some t"
      "lives_of B s' = lives_of B s2" "trace s' = trace s2" by blast
  have "bcast_body target B i j S life s = Inr s'"
    using assms(4,5) s2(1) s'(1) by (simp add: bcast_body_def tileIsLocal_def)
  then show ?thesis using s' s2 by simp
qed

lemma bcast_body_member:
  assumes "finite S" "card S \<noteq> 1" "\<forall>x\<in>S. valid_rank B x" "mpi_rank B \<in> S"
    and "tileRank B i j \<in> S" "tileRank B i j \<noteq> mpi_rank B"
    and "0 \<le> tileMb B i * tileNb B j"
    and "sizeof_FloatType B = MPI_DOUBLE"
    and "bcast_in s = [w]"
    and "length w = nat (tileMb B i * tileNb B j) * MPI_DOUBLE"
    and "target = Devices \<longrightarrow> num_devices B \<le> int (length (comm_stream B))"
    and fit: "fits_int (tileRank B i j)"
  shows "\<exists>s' t. bcast_body target B i j S life s = Inr s' \<and>
           tiles_of B s' (it B + i, jt B + j, host_num B) = Some t \<and>
           tile_data t = w \<and> tile_mb t = tileMb B i \<and> tile_nb t = tileNb B j \<and>
           lives_of B s' (it B + i, jt B + j) = Some life"
proof -
  obtain tile sa where ct: "ColMajorTile (tileMb B i) (tileNb B j) B s = (tile, sa)"
    by (cases "ColMajorTile (tileMb B i) (tileNb B j) B s") auto
  then have tf: "tile_mb tile = tileMb B i" "tile_nb tile = tileNb B j"
      "length (tile_data tile) = nat (tileMb B i * tileNb B j) * sizeof_FloatType B"
      "bcast_in sa = bcast_in s"
    by (auto simp: ColMajorTile_def)
  let ?s1 = "lives_insert B (it B + i, jt B + j) life (tile_assign B i j (host_num B) tile sa)"
  have t1: "tiles_of B ?s1 (it B + i, jt B + j, host_num B) = Some tile"
    by (simp add: tile_assign_def)
  have b1: "bcast_in ?s1 = [w]" using tf(4) assms(9) by (simp add: tile_assign_def)
  have c1: "0 \<le> tile_mb tile * tile_nb tile" using tf assms(7) by simp
  have l1: "length w = nat (tile_mb tile * tile_nb tile) * MPI_DOUBLE" using tf assms(10) by simp
  have l2: "length w \<le> length (tile_data tile)" using tf assms(8,10) by simp
  from tileSend_set_member [OF assms(1-6) t1 c1 b1 l1 l2 fit] obtain s2 where
    s2: "tileSend_set B i j S ?s1 = Inr s2"
      "tiles_of B s2 = (tiles_of B ?s1)((it B + i, jt B + j, host_num B) \<mapsto>
                              tile\<lparr>tile_data := w @ drop (length w) (tile_data tile)\<rparr>)"
      "lives_of B s2 = lives_of B ?s1" by blast
  have dw: "w @ drop (length w) (tile_data tile) = w" using tf assms(8,10) by simp
  let ?t = "tile\<lparr>tile_data := w\<rparr>"
  have t2: "tiles_of B s2 (it B + i, jt B + j, host_num B) = Some ?t" using s2(2) dw by simp
  from bcast_tail_ok [OF t2 assms(11)] obtain s' where
    s': "(if target = Devices
          then foldE (tileCopyToDevice B i j) [0 .. num_devices B - 1] s2 else Inr s2) = Inr s'"
      "tiles_of B s' (it B + i, jt B + j, host_num B) = Some ?t"
      "lives_of B s' = lives_of B s2" by blast
  have "bcast_body target B i j S life s = Inr s'"
    using assms(4,6) ct s2(1) s'(1) by (simp add: bcast_body_def tileIsLocal_def)
  moreover have "lives_of B s' (it B + i, jt B + j) = Some life"
    using s'(3) s2(3) by simp
  ultimately show ?thesis using s'(2) tf by auto
qed

lemma count_cells:
  "(\<Sum>i\<leftarrow>[lo .. hi]. int (length (filter (P i) [l .. u]))) =
     int (card {(i, j). lo \<le> i \<and> i \<le> hi \<and> l \<le> j \<and> j \<le> u \<and> P i j})"
proof -
  have len: "\<And>i. length (filter (P i) [l .. u]) = card {j \<in> {l .. u}. P i j}"
  proof -
    fix i
    have "distinct (filter (P i) [l .. u])" by simp
    from distinct_card [OF this] show "length (filter (P i) [l .. u]) = card {j \<in> {l .. u}. P i j}"
      by simp
  qed
  have set_eq: "{(i, j). lo \<le> i \<and> i \<le> hi \<and> l \<le> j \<and> j \<le> u \<and> P i j} =
      (SIGMA i:{lo .. hi}. {j \<in> {l .. u}. P i j})"
    by auto
  have "(\<Sum>i\<leftarrow>[lo .. hi]. int (length (filter (P i) [l .. u]))) =
      (\<Sum>i\<in>{lo .. hi}. int (card {j \<in> {l .. u}. P i j}))"
    by (simp add: sum_list_distinct_conv_sum_set len)
  also have "\<dots> = int (\<Sum>i\<in>{lo .. hi}. card {j \<in> {l .. u}. P i j})" by simp
  also have "\<dots> = int (card (SIGMA i:{lo .. hi}. {j \<in> {l .. u}. P i j}))"
  proof -
    have "finite {j \<in> {l .. u}. P i j}" for i
      by (rule finite_subset [of _ "{l .. u}"]) auto
    then have fin: "\<forall>i\<in>{lo .. hi}. finite {j \<in> {l .. u}. P i j}" by blast
    show ?thesis by (simp only: card_SigmaI [OF finite_atLeastAtMost_int fin])
  qed
  finally show ?thesis by (simp only: set_eq)
qed

lemma tileSendFindLife_card:
  "tileSendFindLife B i j (i1, i2, j1, j2) =
     int (card {(a, b). i1 \<le> a \<and> a \<le> i2 \<and> j1 \<le> b \<and> b \<le> j2 \<and> tileIsLocal B a b})"
  by (simp add: tileSendFindLife_def fold_fold_count count_cells)

lemma two_members_not_single:
  assumes "finite S" "x \<in> S" "y \<in> S" "x \<noteq> y"
  shows "card S \<noteq> 1"
  using assms by (auto simp: card_1_singleton_iff)

lemma bcast_world_delivers:
  fixes A :: matrix and W :: "int \<Rightarrow> proc"
  assumes fin: "finite S" and root: "tileRank A i j \<in> S" and mem: "r \<in> S"
    and ne: "r \<noteq> tileRank A i j" and valid: "\<forall>x\<in>S. valid_rank A x"
    and own: "tile_at A i j (host_num A) (W (tileRank A i j)) = Some t0"
    and dims: "tile_mb t0 = tileMb A i" "tile_nb t0 = tileNb A j"
    and cnt: "0 \<le> tileMb A i * tileNb A j"
    and len: "length (tile_data t0) = nat (tileMb A i * tileNb A j) * sizeof_FloatType A"
    and dbl: "sizeof_FloatType A = MPI_DOUBLE"
    and dev: "target = Devices \<longrightarrow> num_devices A \<le> int (length (comm_stream A))"
    and quiet: "bcast_in (W r) = []"
    and rk: "fits_int (tileRank A i j)"
  shows "\<exists>s0. bcast_body target (on_rank A (tileRank A i j)) i j S life0 (W (tileRank A i j)) = Inr s0 \<and>
           tile_at A i j (host_num A) s0 = Some t0 \<and>
           (\<exists>s' t. bcast_body target (on_rank A r) i j S life
                      ((W r)\<lparr>bcast_in := bcast_in (W r) @
                         broadcasts (new_calls (W (tileRank A i j)) (Inr s0))\<rparr>) = Inr s' \<and>
                    tile_at A i j (host_num A) s' = Some t \<and> tile_data t = tile_data t0 \<and>
                    tile_mb t = tile_mb t0 \<and> tile_nb t = tile_nb t0 \<and>
                    life_at A i j s' = Some life)"
proof -
  let ?root = "tileRank A i j"
  have c: "card S \<noteq> 1" by (rule two_members_not_single [OF fin mem root ne])
  have v0: "\<forall>x\<in>S. valid_rank (on_rank A ?root) x" using valid by simp
  have own': "tiles_of (on_rank A ?root) (W ?root)
      (it (on_rank A ?root) + i, jt (on_rank A ?root) + j, host_num (on_rank A ?root)) = Some t0"
    using own by (simp add: tile_at_def)
  have "\<exists>s'. bcast_body target (on_rank A ?root) i j S life0 (W ?root) = Inr s' \<and>
           tiles_of (on_rank A ?root) s'
             (it (on_rank A ?root) + i, jt (on_rank A ?root) + j, host_num (on_rank A ?root)) = Some t0 \<and>
           lives_of (on_rank A ?root) s' = lives_of (on_rank A ?root) (W ?root) \<and>
           broadcasts (drop (length (trace (W ?root))) (trace s')) = [tile_data t0]"
    by (rule bcast_body_root [OF fin c v0 _ _ own'])
       (use root dims cnt len dbl dev rk in simp_all)
  then obtain s0 where s0: "bcast_body target (on_rank A ?root) i j S life0 (W ?root) = Inr s0"
    "tile_at A i j (host_num A) s0 = Some t0"
    "broadcasts (new_calls (W ?root) (Inr s0)) = [tile_data t0]"
    by (auto simp: tile_at_def new_calls_def)
  let ?s = "(W r)\<lparr>bcast_in := bcast_in (W r) @ broadcasts (new_calls (W ?root) (Inr s0))\<rparr>"
  have b: "bcast_in ?s = [tile_data t0]" using quiet s0(3) by simp
  have vr: "\<forall>x\<in>S. valid_rank (on_rank A r) x" using valid by simp
  have "\<exists>s' t. bcast_body target (on_rank A r) i j S life ?s = Inr s' \<and>
           tiles_of (on_rank A r) s'
             (it (on_rank A r) + i, jt (on_rank A r) + j, host_num (on_rank A r)) = Some t \<and>
           tile_data t = tile_data t0 \<and> tile_mb t = tileMb (on_rank A r) i \<and>
           tile_nb t = tileNb (on_rank A r) j \<and>
           lives_of (on_rank A r) s' (it (on_rank A r) + i, jt (on_rank A r) + j) = Some life"
    by (rule bcast_body_member [OF fin c vr _ _ _ _ _ b])
       (use root mem ne cnt len dbl dev rk in simp_all)
  then show ?thesis using s0 dims by (auto simp: tile_at_def life_at_def)
qed

text \<open>
  Broadcast correctness for elements of the size of a double. Let the owner of tile
  \<open>(i, j)\<close> hold it on the host, sized as the distribution says, and let \<open>r\<close> be a rank of
  the broadcast set other than the owner, with no broadcast pending, every rank of
  the set inside the communicator and the owner's rank an \<^verbatim>\<open>int\<close>. After the range overload of \<^verbatim>\<open>tileSend\<close> has run on
  the processes, the owner has returned with its tile unchanged, and rank \<open>r\<close> has returned
  with a registry entry at \<open>(I, J, host)\<close> whose extents and element contents are the
  owner's, and with the life counter of \<open>(I, J)\<close> equal to the number of cells of the range
  that rank \<open>r\<close> owns; for the overload with two ranges, to the sum of the two numbers.
  (With target \<open>Devices\<close> every device needs its communication stream.)
\<close>

lemma tile_bcast_delivers_for_double:
  fixes A :: matrix and W :: "int \<Rightarrow> proc"
  assumes own: "tile_at A i j (host_num A) (W (tileRank A i j)) = Some t0"
    and dims: "tile_mb t0 = tileMb A i" "tile_nb t0 = tileNb A j"
    and cnt: "0 \<le> tileMb A i * tileNb A j"
    and len: "length (tile_data t0) = nat (tileMb A i * tileNb A j) * sizeof_FloatType A"
    and dbl: "sizeof_FloatType A = MPI_DOUBLE"
    and dev: "target = Devices \<longrightarrow> num_devices A \<le> int (length (comm_stream A))"
    and quiet: "bcast_in (W r) = []"
    and ne: "r \<noteq> tileRank A i j"
    and rk: "fits_int (tileRank A i j)"
  shows
    "(r \<in> tileSendFindRanks A i j (i1, i2, j1, j2) {int_of_int64 (tileRank A i j)} \<and>
      (\<forall>x\<in>tileSendFindRanks A i j (i1, i2, j1, j2) {int_of_int64 (tileRank A i j)}. valid_rank A x) \<longrightarrow>
        (\<exists>s0. tile_bcast_world target A i j (i1, i2, j1, j2) W (tileRank A i j) = Inr s0 \<and>
              tile_at A i j (host_num A) s0 = Some t0) \<and>
        (\<exists>s' t. tile_bcast_world target A i j (i1, i2, j1, j2) W r = Inr s' \<and>
              tile_at A i j (host_num A) s' = Some t \<and> tile_data t = tile_data t0 \<and>
              tile_mb t = tile_mb t0 \<and> tile_nb t = tile_nb t0 \<and>
              life_at A i j s' =
                Some (int (card {(a, b). i1 \<le> a \<and> a \<le> i2 \<and> j1 \<le> b \<and> b \<le> j2 \<and>
                                        tileRank A a b = r})))) \<and>
     (r \<in> tileSendFindRanks A i j (k1, k2, l1, l2)
            (tileSendFindRanks A i j (i1, i2, j1, j2) {int_of_int64 (tileRank A i j)}) \<and>
      (\<forall>x\<in>tileSendFindRanks A i j (k1, k2, l1, l2)
            (tileSendFindRanks A i j (i1, i2, j1, j2) {int_of_int64 (tileRank A i j)}). valid_rank A x) \<longrightarrow>
        (\<exists>s0. tile_bcast_world2 target A i j (i1, i2, j1, j2) (k1, k2, l1, l2) W (tileRank A i j)
                = Inr s0 \<and>
              tile_at A i j (host_num A) s0 = Some t0) \<and>
        (\<exists>s' t. tile_bcast_world2 target A i j (i1, i2, j1, j2) (k1, k2, l1, l2) W r = Inr s' \<and>
              tile_at A i j (host_num A) s' = Some t \<and> tile_data t = tile_data t0 \<and>
              tile_mb t = tile_mb t0 \<and> tile_nb t = tile_nb t0 \<and>
              life_at A i j s' =
                Some (int (card {(a, b). i1 \<le> a \<and> a \<le> i2 \<and> j1 \<le> b \<and> b \<le> j2 \<and>
                                        tileRank A a b = r}) +
                      int (card {(a, b). k1 \<le> a \<and> a \<le> k2 \<and> l1 \<le> b \<and> b \<le> l2 \<and>
                                        tileRank A a b = r}))))"
proof (intro conjI impI; elim conjE)
  let ?S = "tileSendFindRanks A i j (i1, i2, j1, j2) {int_of_int64 (tileRank A i j)}"
  let ?life = "\<lambda>r. tileSendFindLife (on_rank A r) i j (i1, i2, j1, j2)"
  assume mem: "r \<in> ?S" and valid: "\<forall>x\<in>?S. valid_rank A x"
  have fin: "finite ?S" by (rule finite_tileSendFindRanks) simp
  have root: "tileRank A i j \<in> ?S" by (rule tileSendFindRanks_mono) (simp add: rk)
  from bcast_world_delivers [OF fin root mem ne valid own dims cnt len dbl dev quiet rk,
      of "?life (tileRank A i j)" "?life r"]
  obtain s0 s' t where
    s0: "bcast_body target (on_rank A (tileRank A i j)) i j ?S (?life (tileRank A i j))
           (W (tileRank A i j)) = Inr s0"
      "tile_at A i j (host_num A) s0 = Some t0"
    and s': "bcast_body target (on_rank A r) i j ?S (?life r)
           ((W r)\<lparr>bcast_in := bcast_in (W r) @
               broadcasts (new_calls (W (tileRank A i j)) (Inr s0))\<rparr>) = Inr s'"
      "tile_at A i j (host_num A) s' = Some t" "tile_data t = tile_data t0"
      "tile_mb t = tile_mb t0" "tile_nb t = tile_nb t0" "life_at A i j s' = Some (?life r)"
    by (elim exE conjE) (rule that)
  show "\<exists>s0. tile_bcast_world target A i j (i1, i2, j1, j2) W (tileRank A i j) = Inr s0 \<and>
              tile_at A i j (host_num A) s0 = Some t0"
    using s0 by (simp add: tile_bcast_world_def tileSend_range_body)
  have "tile_bcast_world target A i j (i1, i2, j1, j2) W r = Inr s'"
    using s0(1) s'(1) ne by (simp add: tile_bcast_world_def tileSend_range_body)
  then show "\<exists>s' t. tile_bcast_world target A i j (i1, i2, j1, j2) W r = Inr s' \<and>
              tile_at A i j (host_num A) s' = Some t \<and> tile_data t = tile_data t0 \<and>
              tile_mb t = tile_mb t0 \<and> tile_nb t = tile_nb t0 \<and>
              life_at A i j s' =
                Some (int (card {(a, b). i1 \<le> a \<and> a \<le> i2 \<and> j1 \<le> b \<and> b \<le> j2 \<and>
                                        tileRank A a b = r}))"
    using s'(2-6) by (simp add: tileSendFindLife_card)
next
  let ?S = "tileSendFindRanks A i j (k1, k2, l1, l2)
              (tileSendFindRanks A i j (i1, i2, j1, j2) {int_of_int64 (tileRank A i j)})"
  let ?life = "\<lambda>r. tileSendFindLife (on_rank A r) i j (i1, i2, j1, j2) +
                    tileSendFindLife (on_rank A r) i j (k1, k2, l1, l2)"
  assume mem: "r \<in> ?S" and valid: "\<forall>x\<in>?S. valid_rank A x"
  have fin: "finite ?S" by (intro finite_tileSendFindRanks) simp
  have root: "tileRank A i j \<in> ?S" by (intro tileSendFindRanks_mono) (simp add: rk)
  from bcast_world_delivers [OF fin root mem ne valid own dims cnt len dbl dev quiet rk,
      of "?life (tileRank A i j)" "?life r"]
  obtain s0 s' t where
    s0: "bcast_body target (on_rank A (tileRank A i j)) i j ?S (?life (tileRank A i j))
           (W (tileRank A i j)) = Inr s0"
      "tile_at A i j (host_num A) s0 = Some t0"
    and s': "bcast_body target (on_rank A r) i j ?S (?life r)
           ((W r)\<lparr>bcast_in := bcast_in (W r) @
               broadcasts (new_calls (W (tileRank A i j)) (Inr s0))\<rparr>) = Inr s'"
      "tile_at A i j (host_num A) s' = Some t" "tile_data t = tile_data t0"
      "tile_mb t = tile_mb t0" "tile_nb t = tile_nb t0" "life_at A i j s' = Some (?life r)"
    by (elim exE conjE) (rule that)
  show "\<exists>s0. tile_bcast_world2 target A i j (i1, i2, j1, j2) (k1, k2, l1, l2) W (tileRank A i j)
                = Inr s0 \<and>
              tile_at A i j (host_num A) s0 = Some t0"
    using s0 by (simp add: tile_bcast_world2_def tileSend_range2_body)
  have "tile_bcast_world2 target A i j (i1, i2, j1, j2) (k1, k2, l1, l2) W r = Inr s'"
    using s0(1) s'(1) ne by (simp add: tile_bcast_world2_def tileSend_range2_body)
  then show "\<exists>s' t. tile_bcast_world2 target A i j (i1, i2, j1, j2) (k1, k2, l1, l2) W r = Inr s' \<and>
              tile_at A i j (host_num A) s' = Some t \<and> tile_data t = tile_data t0 \<and>
              tile_mb t = tile_mb t0 \<and> tile_nb t = tile_nb t0 \<and>
              life_at A i j s' =
                Some (int (card {(a, b). i1 \<le> a \<and> a \<le> i2 \<and> j1 \<le> b \<and> b \<le> j2 \<and>
                                        tileRank A a b = r}) +
                      int (card {(a, b). k1 \<le> a \<and> a \<le> k2 \<and> l1 \<le> b \<and> b \<le> l2 \<and>
                                        tileRank A a b = r}))"
    using s'(2-6) by (simp add: tileSendFindLife_card)
qed

lemma ex_row1_ranks [simp]:
  "tileSendFindRanks ex_A 0 0 (1, 1, 0, 1) {0} = {0, 1}"
  "tileSendFindRanks ex_A 0 0 (1, 1, 0, 0) {0} = {0, 1}"
  "tileSendFindRanks ex_A 0 0 (1, 1, 1, 1) {0, 1} = {0, 1}"
  by (auto simp: tileSendFindRanks_def)

lemma ex_row1_life:
  "int (card {(a, b). 1 \<le> a \<and> a \<le> 1 \<and> 0 \<le> b \<and> b \<le> 1 \<and> tileRank ex_A a b = 1}) = 2"
  "int (card {(a, b). 1 \<le> a \<and> a \<le> 1 \<and> 0 \<le> b \<and> b \<le> 0 \<and> tileRank ex_A a b = 1}) = 1"
  "int (card {(a, b). 1 \<le> a \<and> a \<le> 1 \<and> 1 \<le> b \<and> b \<le> 1 \<and> tileRank ex_A a b = 1}) = 1"
  using tileSendFindLife_card [of "on_rank ex_A 1" 0 0 1 1 0 1]
    tileSendFindLife_card [of "on_rank ex_A 1" 0 0 1 1 0 0]
    tileSendFindLife_card [of "on_rank ex_A 1" 0 0 1 1 1 1]
  by (simp_all add: tileSendFindLife_def)


lemma tile_bcast_delivers_for_double_example:
  "tile_at ex_A 0 0 (host_num ex_A) (ex_W (tileRank ex_A 0 0)) = Some (ex_tile 10) \<and>
   sizeof_FloatType ex_A = MPI_DOUBLE \<and>
   1 \<in> tileSendFindRanks ex_A 0 0 (1, 1, 0, 1) {int_of_int64 (tileRank ex_A 0 0)} \<and>
   1 \<noteq> tileRank ex_A 0 0 \<and>
   (\<exists>s' t. tile_bcast_world Devices ex_A 0 0 (1, 1, 0, 1) ex_W 1 = Inr s' \<and>
       tile_at ex_A 0 0 (host_num ex_A) s' = Some t \<and>
       tile_data t = [10, 1, 2, 3, 4, 5, 6, 7] \<and> life_at ex_A 0 0 s' = Some 2) \<and>
   (\<exists>s' t. tile_bcast_world2 Devices ex_A 0 0 (1, 1, 0, 0) (1, 1, 1, 1) ex_W 1 = Inr s' \<and>
       tile_at ex_A 0 0 (host_num ex_A) s' = Some t \<and>
       tile_data t = [10, 1, 2, 3, 4, 5, 6, 7] \<and> life_at ex_A 0 0 s' = Some 2)"
proof -
  have own: "tile_at ex_A 0 0 (host_num ex_A) (ex_W (tileRank ex_A 0 0)) = Some (ex_tile 10)"
    by (simp only: ex_tileRank) (simp add: tile_at_def tiles_of_def ex_A_def ex_W_def ex_proc_def)
  have dims: "tile_mb (ex_tile 10) = tileMb ex_A 0" "tile_nb (ex_tile 10) = tileNb ex_A 0"
    by (simp_all add: ex_tile_def tileMb_def tileNb_def ex_A_def default_tileMbFunc_def
        default_tileNbFunc_def)
  have cnt: "0 \<le> tileMb ex_A 0 * tileNb ex_A 0"
    by (simp add: tileMb_def tileNb_def ex_A_def default_tileMbFunc_def default_tileNbFunc_def)
  have len: "length (tile_data (ex_tile 10)) =
      nat (tileMb ex_A 0 * tileNb ex_A 0) * sizeof_FloatType ex_A"
    by (simp add: ex_tile_def tileMb_def tileNb_def ex_A_def default_tileMbFunc_def
        default_tileNbFunc_def)
  have dbl: "sizeof_FloatType ex_A = MPI_DOUBLE" by (simp add: ex_A_def MPI_DOUBLE_def)
  have dev: "Devices = Devices \<longrightarrow> num_devices ex_A \<le> int (length (comm_stream ex_A))"
    by (simp add: ex_A_def)
  have quiet: "bcast_in (ex_W 1) = []" by (simp add: ex_W_def ex_proc_def)
  have ne: "1 \<noteq> tileRank ex_A 0 0" by simp
  have valid: "\<forall>x\<in>{0, 1}. valid_rank ex_A x" by (simp add: valid_rank_def ex_A_def)
  have td: "tile_data (ex_tile 10) = [10, 1, 2, 3, 4, 5, 6, 7]" by (simp add: ex_tile_def)
  note thm1 = tile_bcast_delivers_for_double [OF own dims cnt len dbl dev quiet ne,
      of 1 1 0 1 1 1 1 1]
  note thm2 = tile_bcast_delivers_for_double [OF own dims cnt len dbl dev quiet ne,
      of 1 1 0 0 1 1 1 1]
  have p1: "\<exists>s' t. tile_bcast_world Devices ex_A 0 0 (1, 1, 0, 1) ex_W 1 = Inr s' \<and>
       tile_at ex_A 0 0 (host_num ex_A) s' = Some t \<and>
       tile_data t = [10, 1, 2, 3, 4, 5, 6, 7] \<and> life_at ex_A 0 0 s' = Some 2"
    using thm1 [THEN conjunct1] valid by (simp add: ex_row1_life td) blast
  have p2: "\<exists>s' t. tile_bcast_world2 Devices ex_A 0 0 (1, 1, 0, 0) (1, 1, 1, 1) ex_W 1 = Inr s' \<and>
       tile_at ex_A 0 0 (host_num ex_A) s' = Some t \<and>
       tile_data t = [10, 1, 2, 3, 4, 5, 6, 7] \<and> life_at ex_A 0 0 s' = Some 2"
    using thm2 [THEN conjunct2] valid by (simp add: ex_row1_life td) blast
  show ?thesis using own dbl p1 p2 by simp
qed

text \<open>
  Claim C2. The claim is that after the broadcast every non-owner rank of the set holds
  the owner's contents at \<open>(I, J, host)\<close>, and a life counter equal to the number of cells
  of the range it owns. With 16-byte elements (\<^verbatim>\<open>std::complex<double>\<close>), rank 0 owning
  tile (0, 0) and the range being tile row 1, which rank 1 owns: after the broadcast
  rank 1 has the life counter 2, as claimed, but its tile has the first 8 of the
  owner's 16 bytes, followed by what its new block contained. The broadcast passes
  \<^verbatim>\<open>MPI_DOUBLE\<close> whatever \<^verbatim>\<open>FloatType\<close> is.
\<close>

theorem tile_bcast_complex_double_half_tile:
  "map_option tile_data (tile_at ex_A16 0 0 2 (ex_W16 (tileRank ex_A16 0 0))) =
     Some [10, 1, 2, 3, 4, 5, 6, 7, 8, 9, 10, 11, 12, 13, 14, 15] \<and>
   map_sum id (map_option tile_data \<circ> tile_at ex_A16 0 0 2)
       (tile_bcast_world Host ex_A16 0 0 (1, 1, 0, 1) ex_W16 1) =
     Inr (Some ([10, 1, 2, 3, 4, 5, 6, 7] @ replicate 8 0)) \<and>
   map_sum id (life_at ex_A16 0 0) (tile_bcast_world Host ex_A16 0 0 (1, 1, 0, 1) ex_W16 1) =
     Inr (Some 2)"
  by (simp add: ex_eval tile_bcast_world_def tileSend_range_def tileSend_set_def
      tileSendFindRanks_def tileSendFindLife_def MPI_Bcast_def sorted_list_01 lives_insert_def
      life_at_def lives_of_def)

subsection \<open>Gather\<close>

lemma foldE_append:
  "foldE f (xs @ ys) s = (case foldE f xs s of Inl e \<Rightarrow> Inl e | Inr s' \<Rightarrow> foldE f ys s')"
  by (induction xs arbitrary: s) (auto split: sum.splits)

lemma foldE_map: "foldE g (map h xs) s = foldE (\<lambda>x. g (h x)) xs s"
  by (induction xs arbitrary: s) (auto split: sum.splits)

lemma foldE_nested:
  "foldE (\<lambda>i. foldE (f i) (js i)) is s =
     foldE (\<lambda>c. f (fst c) (snd c)) (concat (map (\<lambda>i. map (Pair i) (js i)) is)) s"
  by (induction "is" arbitrary: s) (auto simp: foldE_append foldE_map split: sum.splits)

lemma gather_flat:
  "gather A s = foldE (\<lambda>c. gather_tile A (fst c) (snd c)) (gather_cells A) s"
  by (simp add: gather_def gather_cells_def foldE_nested)

lemma set_gather_cells:
  "set (gather_cells A) = {(a, b). 0 \<le> a \<and> a < mt A \<and> 0 \<le> b \<and> b \<le> a \<and> b < nt A}"
  apply (auto simp: gather_cells_def)
  subgoal for a b by (rule bexI [of _ a]) auto
  done

lemma log_call_log_call: "log_call es2 (log_call es1 s) = log_call (es1 @ es2) s"
  by (simp add: log_call_def)

lemma log_call_Nil [simp]: "log_call [] s = s"
  by (simp add: log_call_def)

lemma gather_sender:
  assumes rank: "mpi_rank B \<noteq> 0" and v0: "valid_rank B 0"
    and held: "\<forall>c\<in>set cs. tileRank B (fst c) (snd c) = mpi_rank B \<longrightarrow>
        (\<exists>t. tile_at B (fst c) (snd c) (host_num B) s = Some t \<and> tile_data t = dat c \<and>
             0 \<le> tile_mb t * tile_nb t \<and>
             length (tile_data t) = nat (tile_mb t * tile_nb t) * MPI_DOUBLE)"
  shows "foldE (\<lambda>c. gather_tile B (fst c) (snd c)) cs s =
     Inr (log_call (map (\<lambda>c. Send 0 (dat c))
                     (filter (\<lambda>c. tileRank B (fst c) (snd c) = mpi_rank B) cs)) s)"
  using held
proof (induction cs arbitrary: s)
  case Nil
  then show ?case by simp
next
  case (Cons c cs)
  show ?case
  proof (cases "tileRank B (fst c) (snd c) = mpi_rank B")
    case True
    with Cons.prems obtain t where
      t: "tile_at B (fst c) (snd c) (host_num B) s = Some t" "tile_data t = dat c"
        "0 \<le> tile_mb t * tile_nb t"
        "length (tile_data t) = nat (tile_mb t * tile_nb t) * MPI_DOUBLE" by auto
    let ?s1 = "log_call [Send 0 (dat c)] s"
    have step: "gather_tile B (fst c) (snd c) s = Inr ?s1"
      using rank v0 True t
      by (simp add: gather_tile_def tileIsLocal_def tileSend_def MPI_Send_def Let_def)
    have "\<forall>c\<in>set cs. tileRank B (fst c) (snd c) = mpi_rank B \<longrightarrow>
        (\<exists>t. tile_at B (fst c) (snd c) (host_num B) ?s1 = Some t \<and> tile_data t = dat c \<and>
             0 \<le> tile_mb t * tile_nb t \<and>
             length (tile_data t) = nat (tile_mb t * tile_nb t) * MPI_DOUBLE)"
      using Cons.prems by (simp add: tile_at_def)
    from Cons.IH [OF this] show ?thesis
      using step True by (simp add: log_call_log_call)
  next
    case False
    have step: "gather_tile B (fst c) (snd c) s = Inr s"
      using rank False by (simp add: gather_tile_def tileIsLocal_def)
    have "\<forall>c\<in>set cs. tileRank B (fst c) (snd c) = mpi_rank B \<longrightarrow>
        (\<exists>t. tile_at B (fst c) (snd c) (host_num B) s = Some t \<and> tile_data t = dat c \<and>
             0 \<le> tile_mb t * tile_nb t \<and>
             length (tile_data t) = nat (tile_mb t * tile_nb t) * MPI_DOUBLE)"
      using Cons.prems by simp
    from Cons.IH [OF this] show ?thesis using step False by simp
  qed
qed

lemma tileRecv_ok:
  assumes "sizeof_FloatType B = MPI_DOUBLE" "valid_rank B src" "inbox s src = msg # rest"
    and "0 \<le> tileMb B a * tileNb B b"
    and "length msg = nat (tileMb B a * tileNb B b) * MPI_DOUBLE"
  shows "\<exists>s'. tileRecv B a b src s = Inr s' \<and>
           tiles_of B s' = (tiles_of B s)((it B + a, jt B + b, host_num B) \<mapsto>
              \<lparr>tile_mb = tileMb B a, tile_nb = tileNb B b, tile_data = msg,
               tile_device = host_num B\<rparr>) \<and>
           inbox s' = (inbox s)(src := rest) \<and> trace s' = trace s @ [Recv src msg]"
  using assms
  by (simp add: tileRecv_def ColMajorTile_def Let_def MPI_Recv_def tile_assign_def
      tiles_insert_def tiles_of_def log_call_def)

lemma gather_root:
  assumes rank: "mpi_rank B = 0" and dbl: "sizeof_FloatType B = MPI_DOUBLE"
    and box: "\<forall>src. src \<noteq> 0 \<longrightarrow>
        inbox s src = map dat (filter (\<lambda>c. tileRank B (fst c) (snd c) = src) cs)"
    and ok: "\<forall>c\<in>set cs. tileRank B (fst c) (snd c) \<noteq> 0 \<longrightarrow>
        fits_int (tileRank B (fst c) (snd c)) \<and>
        valid_rank B (tileRank B (fst c) (snd c)) \<and>
        0 \<le> tileMb B (fst c) * tileNb B (snd c) \<and>
        length (dat c) = nat (tileMb B (fst c) * tileNb B (snd c)) * MPI_DOUBLE"
  shows "\<exists>s'. foldE (\<lambda>c. gather_tile B (fst c) (snd c)) cs s = Inr s' \<and>
           (\<forall>a b. tile_at B a b (host_num B) s' =
              (if (a, b) \<in> set cs \<and> tileRank B a b \<noteq> 0
               then Some \<lparr>tile_mb = tileMb B a, tile_nb = tileNb B b, tile_data = dat (a, b),
                          tile_device = host_num B\<rparr>
               else tile_at B a b (host_num B) s)) \<and>
           trace s' = trace s @ map (\<lambda>c. Recv (tileRank B (fst c) (snd c)) (dat c))
                                  (filter (\<lambda>c. tileRank B (fst c) (snd c) \<noteq> 0) cs)"
  using box ok
proof (induction cs arbitrary: s)
  case Nil
  then show ?case by simp
next
  case (Cons c cs)
  obtain a b where c: "c = (a, b)" by (cases c)
  show ?case
  proof (cases "tileRank B a b = 0")
    case True
    have step: "gather_tile B a b s = Inr s"
      using rank True by (simp add: gather_tile_def tileIsLocal_def)
    have box': "\<forall>src. src \<noteq> 0 \<longrightarrow>
        inbox s src = map dat (filter (\<lambda>c. tileRank B (fst c) (snd c) = src) cs)"
      using Cons.prems(1) True c by auto
    have ok': "\<forall>c\<in>set cs. tileRank B (fst c) (snd c) \<noteq> 0 \<longrightarrow>
        fits_int (tileRank B (fst c) (snd c)) \<and>
        valid_rank B (tileRank B (fst c) (snd c)) \<and>
        0 \<le> tileMb B (fst c) * tileNb B (snd c) \<and>
        length (dat c) = nat (tileMb B (fst c) * tileNb B (snd c)) * MPI_DOUBLE"
      using Cons.prems(2) by simp
    from Cons.IH [OF box' ok'] obtain s' where
      s': "foldE (\<lambda>c. gather_tile B (fst c) (snd c)) cs s = Inr s'"
        "\<forall>a b. tile_at B a b (host_num B) s' =
              (if (a, b) \<in> set cs \<and> tileRank B a b \<noteq> 0
               then Some \<lparr>tile_mb = tileMb B a, tile_nb = tileNb B b, tile_data = dat (a, b),
                          tile_device = host_num B\<rparr>
               else tile_at B a b (host_num B) s)"
        "trace s' = trace s @ map (\<lambda>c. Recv (tileRank B (fst c) (snd c)) (dat c))
                                  (filter (\<lambda>c. tileRank B (fst c) (snd c) \<noteq> 0) cs)"
      by (elim exE conjE) (rule that)
    show ?thesis
      apply (rule exI [of _ s'])
      using s' step True c by auto
  next
    case False
    let ?src = "tileRank B a b"
    have pre: "valid_rank B ?src" "0 \<le> tileMb B a * tileNb B b"
      "length (dat c) = nat (tileMb B a * tileNb B b) * MPI_DOUBLE"
      using Cons.prems(2) False c by auto
    have fit: "fits_int ?src" using Cons.prems(2) False c by auto
    have ib: "inbox s ?src = dat c # map dat (filter (\<lambda>c. tileRank B (fst c) (snd c) = ?src) cs)"
      using Cons.prems(1) False c by simp
    from tileRecv_ok [OF dbl pre(1) ib pre(2,3)] obtain s1 where
      s1: "tileRecv B a b ?src s = Inr s1"
        "tiles_of B s1 = (tiles_of B s)((it B + a, jt B + b, host_num B) \<mapsto>
              \<lparr>tile_mb = tileMb B a, tile_nb = tileNb B b, tile_data = dat c,
               tile_device = host_num B\<rparr>)"
        "inbox s1 = (inbox s)(?src := map dat (filter (\<lambda>c. tileRank B (fst c) (snd c) = ?src) cs))"
        "trace s1 = trace s @ [Recv ?src (dat c)]"
      by (elim exE conjE) (rule that)
    have step: "gather_tile B a b s = Inr s1"
      using rank False s1(1) fit by (simp add: gather_tile_def tileIsLocal_def)
    have box': "\<forall>src. src \<noteq> 0 \<longrightarrow>
        inbox s1 src = map dat (filter (\<lambda>c. tileRank B (fst c) (snd c) = src) cs)"
      using Cons.prems(1) s1(3) c by auto
    have ok': "\<forall>c\<in>set cs. tileRank B (fst c) (snd c) \<noteq> 0 \<longrightarrow>
        fits_int (tileRank B (fst c) (snd c)) \<and>
        valid_rank B (tileRank B (fst c) (snd c)) \<and>
        0 \<le> tileMb B (fst c) * tileNb B (snd c) \<and>
        length (dat c) = nat (tileMb B (fst c) * tileNb B (snd c)) * MPI_DOUBLE"
      using Cons.prems(2) by simp
    from Cons.IH [OF box' ok'] obtain s' where
      s': "foldE (\<lambda>c. gather_tile B (fst c) (snd c)) cs s1 = Inr s'"
        "\<forall>a b. tile_at B a b (host_num B) s' =
              (if (a, b) \<in> set cs \<and> tileRank B a b \<noteq> 0
               then Some \<lparr>tile_mb = tileMb B a, tile_nb = tileNb B b, tile_data = dat (a, b),
                          tile_device = host_num B\<rparr>
               else tile_at B a b (host_num B) s1)"
        "trace s' = trace s1 @ map (\<lambda>c. Recv (tileRank B (fst c) (snd c)) (dat c))
                                  (filter (\<lambda>c. tileRank B (fst c) (snd c) \<noteq> 0) cs)"
      by (elim exE conjE) (rule that)
    have at1: "\<And>a' b'. tile_at B a' b' (host_num B) s1 =
        (if (a', b') = (a, b)
         then Some \<lparr>tile_mb = tileMb B a, tile_nb = tileNb B b, tile_data = dat (a, b),
                    tile_device = host_num B\<rparr>
         else tile_at B a' b' (host_num B) s)"
      using s1(2) c by (simp add: tile_at_def)
    show ?thesis
      apply (rule exI [of _ s'])
      using s' step False c s1(4) by (auto simp: at1)
  qed
qed

lemma gather_cells_on_rank [simp]: "gather_cells (on_rank A r) = gather_cells A"
  by (simp add: gather_cells_def)

lemma sent_to_map_Send: "sent_to d (map (\<lambda>c. Send d (f c)) xs) = map f xs"
  by (induction xs) auto

lemma new_calls_log_call [simp]: "new_calls s (Inr (log_call es s)) = es"
  by (simp add: new_calls_def)

lemma gather_world_sender:
  fixes A :: matrix and W :: "int \<Rightarrow> proc"
  assumes held: "\<forall>c\<in>set (gather_cells A).
        \<exists>t. tile_at A (fst c) (snd c) (host_num A) (W (tileRank A (fst c) (snd c))) = Some t \<and>
            tile_mb t = tileMb A (fst c) \<and> tile_nb t = tileNb A (snd c) \<and>
            0 \<le> tileMb A (fst c) * tileNb A (snd c) \<and>
            length (tile_data t) = nat (tileMb A (fst c) * tileNb A (snd c)) * MPI_DOUBLE"
    and v0: "valid_rank A 0" and r: "r \<noteq> 0"
  shows "gather (on_rank A r) (W r) =
     Inr (log_call (map (\<lambda>c. Send 0 (owner_data A W c))
                     (filter (\<lambda>c. tileRank A (fst c) (snd c) = r) (gather_cells A))) (W r))"
proof -
  have h: "\<forall>c\<in>set (gather_cells A).
      tileRank (on_rank A r) (fst c) (snd c) = mpi_rank (on_rank A r) \<longrightarrow>
        (\<exists>t. tile_at (on_rank A r) (fst c) (snd c) (host_num (on_rank A r)) (W r) = Some t \<and>
             tile_data t = owner_data A W c \<and> 0 \<le> tile_mb t * tile_nb t \<and>
             length (tile_data t) = nat (tile_mb t * tile_nb t) * MPI_DOUBLE)"
  proof (intro ballI impI)
    fix c assume c: "c \<in> set (gather_cells A)"
      and own: "tileRank (on_rank A r) (fst c) (snd c) = mpi_rank (on_rank A r)"
    from held c obtain t where
      "tile_at A (fst c) (snd c) (host_num A) (W (tileRank A (fst c) (snd c))) = Some t"
      "tile_mb t = tileMb A (fst c)" "tile_nb t = tileNb A (snd c)"
      "0 \<le> tileMb A (fst c) * tileNb A (snd c)"
      "length (tile_data t) = nat (tileMb A (fst c) * tileNb A (snd c)) * MPI_DOUBLE"
      by blast
    then show "\<exists>t. tile_at (on_rank A r) (fst c) (snd c) (host_num (on_rank A r)) (W r) = Some t \<and>
             tile_data t = owner_data A W c \<and> 0 \<le> tile_mb t * tile_nb t \<and>
             length (tile_data t) = nat (tile_mb t * tile_nb t) * MPI_DOUBLE"
      using own by (simp add: owner_data_def)
  qed
  have "mpi_rank (on_rank A r) \<noteq> 0" "valid_rank (on_rank A r) 0" using r v0 by simp_all
  from gather_sender [OF this h] show ?thesis by (simp add: gather_flat)
qed

text \<open>
  Gather fidelity for elements of the size of a double. Let every rank hold on the host
  the lower-triangle tiles it owns, sized as the distribution says; let the owners be
  ranks of the communicator, \<^verbatim>\<open>int\<close>s, and no message be pending at rank 0. After \<^verbatim>\<open>gather\<close> has
  run on the processes, rank 0 has returned with a host entry for every tile \<open>(a, b)\<close>
  with \<open>b \<le> a\<close> of the matrix, equal to the owner's tile in extents and element contents;
  its transport calls are the receives of the lower-triangle tiles it does not own, one
  each, in loop order, from their owners. Every other rank has returned with its
  registry unchanged, and its transport calls are the sends to rank 0 of the
  lower-triangle tiles it owns, one each, in loop order.
\<close>

lemma gather_collects_for_double:
  fixes A :: matrix and W :: "int \<Rightarrow> proc"
  assumes held: "\<forall>c\<in>set (gather_cells A).
        \<exists>t. tile_at A (fst c) (snd c) (host_num A) (W (tileRank A (fst c) (snd c))) = Some t \<and>
            tile_mb t = tileMb A (fst c) \<and> tile_nb t = tileNb A (snd c) \<and>
            0 \<le> tileMb A (fst c) * tileNb A (snd c) \<and>
            length (tile_data t) = nat (tileMb A (fst c) * tileNb A (snd c)) * MPI_DOUBLE"
    and valid: "\<forall>c\<in>set (gather_cells A). valid_rank A (tileRank A (fst c) (snd c))"
    and v0: "valid_rank A 0"
    and dbl: "sizeof_FloatType A = MPI_DOUBLE"
    and quiet: "\<forall>src. inbox (W 0) src = []"
    and fit: "\<forall>c\<in>set (gather_cells A). fits_int (tileRank A (fst c) (snd c))"
  shows "(\<exists>s0. gather_world A W 0 = Inr s0 \<and>
            (\<forall>a b. 0 \<le> b \<and> b \<le> a \<and> a < mt A \<and> b < nt A \<longrightarrow>
               (\<exists>t t'. tile_at A a b (host_num A) s0 = Some t \<and>
                       tile_at A a b (host_num A) (W (tileRank A a b)) = Some t' \<and>
                       tile_data t = tile_data t' \<and> tile_mb t = tile_mb t' \<and>
                       tile_nb t = tile_nb t')) \<and>
            new_calls (W 0) (Inr s0) =
              map (\<lambda>c. Recv (tileRank A (fst c) (snd c)) (owner_data A W c))
                  (filter (\<lambda>c. tileRank A (fst c) (snd c) \<noteq> 0) (gather_cells A))) \<and>
         (\<forall>r. r \<noteq> 0 \<longrightarrow>
            (\<exists>sr. gather_world A W r = Inr sr \<and> tiles_of A sr = tiles_of A (W r) \<and>
               new_calls (W r) (Inr sr) =
                 map (\<lambda>c. Send 0 (owner_data A W c))
                     (filter (\<lambda>c. tileRank A (fst c) (snd c) = r) (gather_cells A))))"
proof (intro conjI allI impI)
  fix r :: int assume r: "r \<noteq> 0"
  show "\<exists>sr. gather_world A W r = Inr sr \<and> tiles_of A sr = tiles_of A (W r) \<and>
               new_calls (W r) (Inr sr) =
                 map (\<lambda>c. Send 0 (owner_data A W c))
                     (filter (\<lambda>c. tileRank A (fst c) (snd c) = r) (gather_cells A))"
    using r gather_world_sender [OF held v0 r] by (simp add: gather_world_def)
next
  let ?dat = "owner_data A W"
  let ?s = "(W 0)\<lparr>inbox := (\<lambda>src. inbox (W 0) src @
                     (if src = 0 then []
                      else sent_to 0 (new_calls (W src) (gather (on_rank A src) (W src)))))\<rparr>"
  have box: "\<forall>src. src \<noteq> 0 \<longrightarrow>
      inbox ?s src = map ?dat (filter (\<lambda>c. tileRank (on_rank A 0) (fst c) (snd c) = src)
                                (gather_cells A))"
    using quiet by (simp add: gather_world_sender [OF held v0] sent_to_map_Send)
  have ok: "\<forall>c\<in>set (gather_cells A). tileRank (on_rank A 0) (fst c) (snd c) \<noteq> 0 \<longrightarrow>
        fits_int (tileRank (on_rank A 0) (fst c) (snd c)) \<and>
        valid_rank (on_rank A 0) (tileRank (on_rank A 0) (fst c) (snd c)) \<and>
        0 \<le> tileMb (on_rank A 0) (fst c) * tileNb (on_rank A 0) (snd c) \<and>
        length (?dat c) =
          nat (tileMb (on_rank A 0) (fst c) * tileNb (on_rank A 0) (snd c)) * MPI_DOUBLE"
  proof (intro ballI impI)
    fix c assume c: "c \<in> set (gather_cells A)"
    from held c obtain t where
      "tile_at A (fst c) (snd c) (host_num A) (W (tileRank A (fst c) (snd c))) = Some t"
      "0 \<le> tileMb A (fst c) * tileNb A (snd c)"
      "length (tile_data t) = nat (tileMb A (fst c) * tileNb A (snd c)) * MPI_DOUBLE"
      by blast
    then show "fits_int (tileRank (on_rank A 0) (fst c) (snd c)) \<and>
        valid_rank (on_rank A 0) (tileRank (on_rank A 0) (fst c) (snd c)) \<and>
        0 \<le> tileMb (on_rank A 0) (fst c) * tileNb (on_rank A 0) (snd c) \<and>
        length (?dat c) =
          nat (tileMb (on_rank A 0) (fst c) * tileNb (on_rank A 0) (snd c)) * MPI_DOUBLE"
      using valid fit c by (simp add: owner_data_def)
  qed
  have rk: "mpi_rank (on_rank A 0) = 0" "sizeof_FloatType (on_rank A 0) = MPI_DOUBLE"
    using dbl by simp_all
  from gather_root [OF rk box ok] obtain s0 where
    run: "foldE (\<lambda>c. gather_tile (on_rank A 0) (fst c) (snd c)) (gather_cells A) ?s = Inr s0"
    and reg: "\<forall>a b. tile_at (on_rank A 0) a b (host_num (on_rank A 0)) s0 =
              (if (a, b) \<in> set (gather_cells A) \<and> tileRank (on_rank A 0) a b \<noteq> 0
               then Some \<lparr>tile_mb = tileMb (on_rank A 0) a, tile_nb = tileNb (on_rank A 0) b,
                          tile_data = ?dat (a, b), tile_device = host_num (on_rank A 0)\<rparr>
               else tile_at (on_rank A 0) a b (host_num (on_rank A 0)) ?s)"
    and tr: "trace s0 = trace ?s @
        map (\<lambda>c. Recv (tileRank (on_rank A 0) (fst c) (snd c)) (?dat c))
            (filter (\<lambda>c. tileRank (on_rank A 0) (fst c) (snd c) \<noteq> 0) (gather_cells A))"
    by (elim exE conjE) (rule that)
  have g: "gather_world A W 0 = Inr s0"
    using run by (simp add: gather_world_def gather_flat)
  have cells: "\<And>a b. 0 \<le> b \<and> b \<le> a \<and> a < mt A \<and> b < nt A \<Longrightarrow>
      \<exists>t t'. tile_at A a b (host_num A) s0 = Some t \<and>
             tile_at A a b (host_num A) (W (tileRank A a b)) = Some t' \<and>
             tile_data t = tile_data t' \<and> tile_mb t = tile_mb t' \<and> tile_nb t = tile_nb t'"
  proof -
    fix a b assume ab: "0 \<le> b \<and> b \<le> a \<and> a < mt A \<and> b < nt A"
    then have mem: "(a, b) \<in> set (gather_cells A)" by (simp add: set_gather_cells)
    from held mem obtain t' where
      t': "tile_at A a b (host_num A) (W (tileRank A a b)) = Some t'"
        "tile_mb t' = tileMb A a" "tile_nb t' = tileNb A b" by fastforce
    show "\<exists>t t'. tile_at A a b (host_num A) s0 = Some t \<and>
             tile_at A a b (host_num A) (W (tileRank A a b)) = Some t' \<and>
             tile_data t = tile_data t' \<and> tile_mb t = tile_mb t' \<and> tile_nb t = tile_nb t'"
    proof (cases "tileRank A a b = 0")
      case True
      have "tile_at A a b (host_num A) s0 = tile_at A a b (host_num A) (W 0)"
        using reg [rule_format, of a b] True by (simp add: tile_at_def)
      then show ?thesis using t' True by simp
    next
      case False
      have "tile_at A a b (host_num A) s0 =
          Some \<lparr>tile_mb = tileMb A a, tile_nb = tileNb A b, tile_data = ?dat (a, b),
                tile_device = host_num A\<rparr>"
        using reg [rule_format, of a b] False mem by simp
      then show ?thesis using t' by (simp add: owner_data_def)
    qed
  qed
  have calls: "new_calls (W 0) (Inr s0) =
      map (\<lambda>c. Recv (tileRank A (fst c) (snd c)) (?dat c))
          (filter (\<lambda>c. tileRank A (fst c) (snd c) \<noteq> 0) (gather_cells A))"
    using tr by (simp add: new_calls_def)
  show "\<exists>s0. gather_world A W 0 = Inr s0 \<and>
            (\<forall>a b. 0 \<le> b \<and> b \<le> a \<and> a < mt A \<and> b < nt A \<longrightarrow>
               (\<exists>t t'. tile_at A a b (host_num A) s0 = Some t \<and>
                       tile_at A a b (host_num A) (W (tileRank A a b)) = Some t' \<and>
                       tile_data t = tile_data t' \<and> tile_mb t = tile_mb t' \<and>
                       tile_nb t = tile_nb t')) \<and>
            new_calls (W 0) (Inr s0) =
              map (\<lambda>c. Recv (tileRank A (fst c) (snd c)) (owner_data A W c))
                  (filter (\<lambda>c. tileRank A (fst c) (snd c) \<noteq> 0) (gather_cells A))"
    apply (rule exI [of _ s0])
    apply (intro conjI allI impI)
      apply (rule g)
     apply (erule cells)
    apply (rule calls)
    done
qed

lemma ex_gather_cells: "gather_cells ex_A = [(0, 0), (1, 0), (1, 1)]"
proof -
  have "mt ex_A - 1 = 1" "nt ex_A - 1 = 1" by (simp_all add: ex_A_def)
  then show ?thesis by (simp add: gather_cells_def)
qed

lemma ex_extents [simp]:
  "tileMb ex_A 0 = 1" "tileMb ex_A 1 = 1" "tileNb ex_A 0 = 1" "tileNb ex_A 1 = 1"
  by (simp_all add: tileMb_def tileNb_def ex_A_def default_tileMbFunc_def default_tileNbFunc_def)

lemma ex_W_tiles [simp]:
  "tile_at ex_A 0 0 (host_num ex_A) (ex_W 0) = Some (ex_tile 10)"
  "tile_at ex_A 1 0 (host_num ex_A) (ex_W 1) = Some (ex_tile 20)"
  "tile_at ex_A 1 1 (host_num ex_A) (ex_W 1) = Some (ex_tile 30)"
  by (simp_all add: tile_at_def tiles_of_def ex_A_def ex_W_def ex_proc_def)

lemma ex_valid_rank [simp]: "valid_rank ex_A 0" "valid_rank ex_A 1"
  by (simp_all add: valid_rank_def ex_A_def)

lemma ex_owner_data [simp]:
  "owner_data ex_A ex_W (1, 0) = [20, 1, 2, 3, 4, 5, 6, 7]"
  "owner_data ex_A ex_W (1, 1) = [30, 1, 2, 3, 4, 5, 6, 7]"
  by (simp_all add: owner_data_def ex_tile_def)


lemma gather_collects_for_double_example:
  "sizeof_FloatType ex_A = MPI_DOUBLE \<and> valid_rank ex_A 0 \<and>
   tile_at ex_A 1 0 (host_num ex_A) (ex_W (tileRank ex_A 1 0)) = Some (ex_tile 20) \<and>
   (\<exists>s0. gather_world ex_A ex_W 0 = Inr s0 \<and>
      (\<exists>t. tile_at ex_A 1 0 (host_num ex_A) s0 = Some t \<and>
           tile_data t = [20, 1, 2, 3, 4, 5, 6, 7]) \<and>
      (\<exists>t. tile_at ex_A 0 0 (host_num ex_A) s0 = Some t \<and>
           tile_data t = [10, 1, 2, 3, 4, 5, 6, 7]) \<and>
      new_calls (ex_W 0) (Inr s0) =
        [Recv 1 [20, 1, 2, 3, 4, 5, 6, 7], Recv 1 [30, 1, 2, 3, 4, 5, 6, 7]]) \<and>
   (\<exists>s1. gather_world ex_A ex_W 1 = Inr s1 \<and>
      new_calls (ex_W 1) (Inr s1) =
        [Send 0 [20, 1, 2, 3, 4, 5, 6, 7], Send 0 [30, 1, 2, 3, 4, 5, 6, 7]])"
proof -
  have held: "\<forall>c\<in>set (gather_cells ex_A).
        \<exists>t. tile_at ex_A (fst c) (snd c) (host_num ex_A) (ex_W (tileRank ex_A (fst c) (snd c))) = Some t \<and>
            tile_mb t = tileMb ex_A (fst c) \<and> tile_nb t = tileNb ex_A (snd c) \<and>
            0 \<le> tileMb ex_A (fst c) * tileNb ex_A (snd c) \<and>
            length (tile_data t) = nat (tileMb ex_A (fst c) * tileNb ex_A (snd c)) * MPI_DOUBLE"
    by (simp add: ex_gather_cells ex_tile_def MPI_DOUBLE_def)
  have valid: "\<forall>c\<in>set (gather_cells ex_A). valid_rank ex_A (tileRank ex_A (fst c) (snd c))"
    by (simp add: ex_gather_cells)
  have v0: "valid_rank ex_A 0" by simp
  have dbl: "sizeof_FloatType ex_A = MPI_DOUBLE" by (simp add: ex_A_def MPI_DOUBLE_def)
  have quiet: "\<forall>src. inbox (ex_W 0) src = []" by (simp add: ex_W_def ex_proc_def)
  have m: "mt ex_A = 2" "nt ex_A = 2" by (simp_all add: ex_A_def)
  have td: "tile_data (ex_tile 20) = [20, 1, 2, 3, 4, 5, 6, 7]"
    "tile_data (ex_tile 10) = [10, 1, 2, 3, 4, 5, 6, 7]" by (simp_all add: ex_tile_def)
  have fit: "\<forall>c\<in>set (gather_cells ex_A). fits_int (tileRank ex_A (fst c) (snd c))"
    by (simp add: ex_gather_cells)
  note g = gather_collects_for_double [OF held valid v0 dbl quiet fit]
  from g obtain s0 where
    s0: "gather_world ex_A ex_W 0 = Inr s0"
    and reg: "\<forall>a b. 0 \<le> b \<and> b \<le> a \<and> a < mt ex_A \<and> b < nt ex_A \<longrightarrow>
               (\<exists>t t'. tile_at ex_A a b (host_num ex_A) s0 = Some t \<and>
                       tile_at ex_A a b (host_num ex_A) (ex_W (tileRank ex_A a b)) = Some t' \<and>
                       tile_data t = tile_data t' \<and> tile_mb t = tile_mb t' \<and>
                       tile_nb t = tile_nb t')"
    and calls: "new_calls (ex_W 0) (Inr s0) =
              map (\<lambda>c. Recv (tileRank ex_A (fst c) (snd c)) (owner_data ex_A ex_W c))
                  (filter (\<lambda>c. tileRank ex_A (fst c) (snd c) \<noteq> 0) (gather_cells ex_A))"
    by (elim exE conjE) (rule that)
  have a: "\<exists>t. tile_at ex_A 1 0 (host_num ex_A) s0 = Some t \<and>
           tile_data t = [20, 1, 2, 3, 4, 5, 6, 7]"
    using reg [rule_format, of 0 1] m td by auto
  have b: "\<exists>t. tile_at ex_A 0 0 (host_num ex_A) s0 = Some t \<and>
           tile_data t = [10, 1, 2, 3, 4, 5, 6, 7]"
    using reg [rule_format, of 0 0] m td by auto
  have c: "new_calls (ex_W 0) (Inr s0) =
        [Recv 1 [20, 1, 2, 3, 4, 5, 6, 7], Recv 1 [30, 1, 2, 3, 4, 5, 6, 7]]"
    using calls by (simp add: ex_gather_cells)
  from g [THEN conjunct2, rule_format, of 1] obtain s1 where
    "gather_world ex_A ex_W 1 = Inr s1"
    "new_calls (ex_W 1) (Inr s1) =
                 map (\<lambda>c. Send 0 (owner_data ex_A ex_W c))
                     (filter (\<lambda>c. tileRank ex_A (fst c) (snd c) = 1) (gather_cells ex_A))"
    by auto
  then have d: "\<exists>s1. gather_world ex_A ex_W 1 = Inr s1 \<and>
      new_calls (ex_W 1) (Inr s1) =
        [Send 0 [20, 1, 2, 3, 4, 5, 6, 7], Send 0 [30, 1, 2, 3, 4, 5, 6, 7]]"
    by (simp add: ex_gather_cells)
  show ?thesis using dbl v0 s0 a b c d by simp
qed

text \<open>
  Claim C8. The claim is that after \<^verbatim>\<open>gather\<close> rank 0 holds every lower-triangle tile,
  bitwise equal to the owner's, having received exactly the non-local ones while every
  other rank sent exactly its own. With 16-byte elements (\<^verbatim>\<open>std::complex<double>\<close>) and
  rank 1 owning tile (1, 0): rank 1 makes its two sends, as claimed, but each carries the
  first 8 of the tile's 16 bytes, and the tile (1, 0) of rank 0 has these 8 bytes
  followed by what its new block contained. Send and receive pass \<^verbatim>\<open>MPI_DOUBLE\<close>
  whatever \<^verbatim>\<open>FloatType\<close> is.
\<close>

theorem gather_complex_double_half_tile:
  "map_option tile_data (tile_at ex_A16 1 0 2 (ex_W16 (tileRank ex_A16 1 0))) =
     Some [20, 1, 2, 3, 4, 5, 6, 7, 8, 9, 10, 11, 12, 13, 14, 15] \<and>
   map_sum id (map_option tile_data \<circ> tile_at ex_A16 1 0 2) (gather_world ex_A16 ex_W16 0) =
     Inr (Some ([20, 1, 2, 3, 4, 5, 6, 7] @ replicate 8 0)) \<and>
   new_calls (ex_W16 1) (gather_world ex_A16 ex_W16 1) =
     [Send 0 [20, 1, 2, 3, 4, 5, 6, 7], Send 0 [30, 1, 2, 3, 4, 5, 6, 7]]"
  by (simp add: ex_eval)

end
